theory Spec2Isabelle
  imports Complex_Main "HOL-Library.Char_ord" "HOL-Library.List_Lexorder" "HOL-Library.Multiset"
begin

section \<open>Python strings\<close>

text \<open>
  A Python \<open>str\<close> is modelled as a \<open>string\<close> (a list of 8-bit characters) read as
  ASCII text: the classification and case functions below are Python's on the code points
  0 to 127, and characters from 128 on are opaque symbols (no case, not whitespace,
  printable).
\<close>

definition is_space :: "char \<Rightarrow> bool" where
  \<comment> \<open>\<open>str.isspace\<close> and the regular expression class \<open>\s\<close> on ASCII:
      TAB, LF, VT, FF, CR, the separators 0x1C to 0x1F, and the blank.\<close>
  "is_space c \<longleftrightarrow>
     (let n = (of_char c :: nat) in (9 \<le> n \<and> n \<le> 13) \<or> (28 \<le> n \<and> n \<le> 32))"

definition lower_char :: "char \<Rightarrow> char" where
  "lower_char c =
     (let n = (of_char c :: nat) in if 65 \<le> n \<and> n \<le> 90 then char_of (n + 32) else c)"

definition upper_char :: "char \<Rightarrow> char" where
  "upper_char c =
     (let n = (of_char c :: nat) in if 97 \<le> n \<and> n \<le> 122 then char_of (n - 32) else c)"

definition lower :: "string \<Rightarrow> string" where
  "lower s = map lower_char s"

definition upper :: "string \<Rightarrow> string" where
  "upper s = map upper_char s"

definition lstrip :: "string \<Rightarrow> string" where
  "lstrip s = dropWhile is_space s"

definition rstrip :: "string \<Rightarrow> string" where
  "rstrip s = rev (dropWhile is_space (rev s))"

definition strip :: "string \<Rightarrow> string" where
  \<comment> \<open>\<open>s.strip()\<close>\<close>
  "strip s = rstrip (lstrip s)"

definition rstrip_char :: "char \<Rightarrow> string \<Rightarrow> string" where
  \<comment> \<open>\<open>s.rstrip(ch)\<close> for a one-character argument: every trailing \<open>ch\<close> goes\<close>
  "rstrip_char ch s = rev (dropWhile (\<lambda>c. c = ch) (rev s))"

definition replace_char :: "char \<Rightarrow> char \<Rightarrow> string \<Rightarrow> string" where
  \<comment> \<open>\<open>s.replace(a, b)\<close> for one-character \<open>a\<close> and \<open>b\<close>\<close>
  "replace_char a b s = map (\<lambda>c. if c = a then b else c) s"

fun split_acc :: "string \<Rightarrow> string \<Rightarrow> string list" where
  "split_acc cur [] = (if cur = [] then [] else [cur])"
| "split_acc cur (c # cs) =
     (if is_space c then (if cur = [] then split_acc [] cs else cur # split_acc [] cs)
      else split_acc (cur @ [c]) cs)"

definition split_ws :: "string \<Rightarrow> string list" where
  \<comment> \<open>\<open>s.split()\<close>: the maximal runs of non-whitespace characters\<close>
  "split_ws s = split_acc [] s"

fun join :: "string \<Rightarrow> string list \<Rightarrow> string" where
  \<comment> \<open>\<open>sep.join(xs)\<close>\<close>
  "join sep [] = []"
| "join sep [x] = x"
| "join sep (x # y # ys) = x @ sep @ join sep (y # ys)"

fun str_nat :: "nat \<Rightarrow> string" where
  "str_nat n =
     (if n < 10 then [char_of (48 + n)] else str_nat (n div 10) @ [char_of (48 + n mod 10)])"

definition str_int :: "int \<Rightarrow> string" where
  \<comment> \<open>\<open>str(i)\<close> for a Python int\<close>
  "str_int i = (if i < 0 then CHR ''-'' # str_nat (nat (- i)) else str_nat (nat i))"

section \<open>SQLNormalizer (benchmarks/core/normalizer.py)\<close>

text \<open>
  Each \<open>re.sub\<close> of \<open>normalize\<close> is a left-to-right scan that replaces the leftmost
  match, continues after it, and copies every character no match covers. None of the six
  patterns matches the empty string.
\<close>

function strip_line_comments :: "string \<Rightarrow> string" where
  \<comment> \<open>\<open>re.sub(r'--.*$', '', sql, flags=re.MULTILINE)\<close>: from \<open>--\<close> the greedy \<open>.*\<close>
      runs to the next line feed (which \<open>.\<close> does not match) or to the end of the text,
      where \<open>$\<close> holds. The line feed itself stays.\<close>
  "strip_line_comments [] = []"
| "strip_line_comments [c] = [c]"
| "strip_line_comments (c # d # cs) =
     (if c = CHR ''-'' \<and> d = CHR ''-''
      then strip_line_comments (dropWhile (\<lambda>x. x \<noteq> CHR 0x0A) cs)
      else c # strip_line_comments (d # cs))"
  by pat_completeness auto
termination
  by (relation "measure length") (auto simp: le_imp_less_Suc length_dropWhile_le le_SucI)

fun find_close :: "string \<Rightarrow> string option" where
  \<comment> \<open>the text after the first \<open>*/\<close>, if there is one\<close>
  "find_close [] = None"
| "find_close [c] = None"
| "find_close (c # d # cs) =
     (if c = CHR ''*'' \<and> d = CHR ''/'' then Some cs else find_close (d # cs))"

lemma find_close_length: "find_close s = Some r \<Longrightarrow> length r < length s"
  by (induction s rule: find_close.induct) (auto split: if_splits)

function strip_block_comments :: "string \<Rightarrow> string" where
  \<comment> \<open>\<open>re.sub(r'/\*.*?\*/', '', sql, flags=re.DOTALL)\<close>: at \<open>/*\<close> the lazy \<open>.*?\<close> stops at
      the first \<open>*/\<close> that starts after it; an opener with no closer is copied.\<close>
  "strip_block_comments [] = []"
| "strip_block_comments [c] = [c]"
| "strip_block_comments (c # d # cs) =
     (if c = CHR ''/'' \<and> d = CHR ''*''
      then (case find_close cs of
              Some r \<Rightarrow> strip_block_comments r
            | None \<Rightarrow> c # strip_block_comments (d # cs))
      else c # strip_block_comments (d # cs))"
  by pat_completeness auto
termination
  by (relation "measure length") (auto dest: find_close_length)

function collapse_ws :: "string \<Rightarrow> string" where
  \<comment> \<open>\<open>re.sub(r'\s+', ' ', sql)\<close>\<close>
  "collapse_ws [] = []"
| "collapse_ws (c # cs) =
     (if is_space c then CHR '' '' # collapse_ws (dropWhile is_space cs)
      else c # collapse_ws cs)"
  by pat_completeness auto
termination
  by (relation "measure length") (auto simp: le_imp_less_Suc length_dropWhile_le)

definition is_op :: "char \<Rightarrow> bool" where
  \<comment> \<open>the class \<open>[=<>!]\<close>\<close>
  "is_op c \<longleftrightarrow> c = CHR ''='' \<or> c = CHR ''<'' \<or> c = CHR ''>'' \<or> c = CHR ''!''"

text \<open>
  The four remaining patterns are \<open>\s*X\s*\<close>. From the current position \<open>\s*\<close> takes the
  whole run of whitespace; when an \<open>X\<close> follows, the match is that run, the \<open>X\<close> and the
  whitespace after it. When another character follows, no match starts anywhere in the run
  (from each of its positions \<open>\s*\<close> reaches the same character), so the run and the
  character are copied.
\<close>

function sub_ops :: "string \<Rightarrow> string" where
  \<comment> \<open>\<open>re.sub(r'\s*([=<>!]+)\s*', r' \1 ', sql)\<close>\<close>
  "sub_ops s =
     (case dropWhile is_space s of
        [] \<Rightarrow> s
      | c # cs \<Rightarrow>
          if is_op c
          then '' '' @ c # takeWhile is_op cs @ '' '' @
               sub_ops (dropWhile is_space (dropWhile is_op cs))
          else takeWhile is_space s @ c # sub_ops cs)"
  by pat_completeness auto
termination
proof (relation "measure length", goal_cases)
  case 1
  show ?case by simp
next
  case (2 s c cs)
  have "length (dropWhile is_space (dropWhile is_op cs)) \<le> length cs"
    by (meson length_dropWhile_le le_trans)
  moreover have "length (c # cs) \<le> length s"
    using length_dropWhile_le [of is_space s] 2 by simp
  ultimately show ?case by simp
next
  case (3 s c cs)
  have "length (c # cs) \<le> length s"
    using length_dropWhile_le [of is_space s] 3 by simp
  then show ?case by simp
qed

function sub_around :: "char \<Rightarrow> string \<Rightarrow> string \<Rightarrow> string \<Rightarrow> string" where
  \<comment> \<open>\<open>re.sub(r'\s*X\s*', pre + X + suf, sql)\<close> for one character \<open>X\<close>\<close>
  "sub_around x pre suf s =
     (case dropWhile is_space s of
        [] \<Rightarrow> s
      | c # cs \<Rightarrow>
          if c = x
          then pre @ c # suf @ sub_around x pre suf (dropWhile is_space cs)
          else takeWhile is_space s @ c # sub_around x pre suf cs)"
  by pat_completeness auto
termination
proof (relation "measure (\<lambda>(x, pre, suf, s). length s)", goal_cases)
  case 1
  show ?case by simp
next
  case (2 x pre suf s c cs)
  have "length (dropWhile is_space cs) \<le> length cs"
    by (rule length_dropWhile_le)
  moreover have "length (c # cs) \<le> length s"
    using length_dropWhile_le [of is_space s] 2 by simp
  ultimately show ?case by simp
next
  case (3 x pre suf s c cs)
  have "length (c # cs) \<le> length s"
    using length_dropWhile_le [of is_space s] 3 by simp
  then show ?case by simp
qed

declare sub_ops.simps [simp del] sub_around.simps [simp del]

definition normalize :: "string \<Rightarrow> string" where
  "normalize sql =
     (if sql = [] then []
      else
        let sql = lower sql;
            sql = strip_line_comments sql;
            sql = strip_block_comments sql;
            sql = collapse_ws sql;
            sql = rstrip_char (CHR '';'') (strip sql);
            sql = replace_char (CHR 0x22) (CHR 0x27) sql;
            sql = sub_ops sql;
            sql = sub_around (CHR '','') [] '' '' sql;
            sql = sub_around (CHR ''('') '' '' [] sql;
            sql = sub_around (CHR '')'') [] '' '' sql;
            sql = join '' '' (split_ws sql)
        in strip sql)"

definition exact_match_sql :: "string \<Rightarrow> string \<Rightarrow> bool" where
  \<comment> \<open>\<open>SQLNormalizer.exact_match\<close>\<close>
  "exact_match_sql gold predicted \<longleftrightarrow> normalize gold = normalize predicted"

definition evaluate_exact_match :: "string \<Rightarrow> string \<Rightarrow> bool" where
  \<comment> \<open>benchmarks/evaluators/exact\_match.py\<close>
  "evaluate_exact_match gold_sql predicted_sql = exact_match_sql gold_sql predicted_sql"

section \<open>ExecutionEvaluator (benchmarks/evaluators/execution.py)\<close>

text \<open>
  The \<open>sqlite3\<close> library and the file system are collaborators. \<open>'w\<close> is the state of the
  world outside the program; a call into a collaborator reads it and returns the next one.
  An exception a collaborator raises is a value of \<open>py_exc\<close> carrying \<open>str(e)\<close>:
  \<open>SqliteError\<close> for the subclasses of \<open>sqlite3.Error\<close>, \<open>OtherError\<close> for every other
  subclass of \<open>Exception\<close> (an \<open>OSError\<close> of the file system among them). A function
  of the program that an exception can leave returns a sum, \<open>Inl\<close> for the exception.
\<close>

datatype py_exc = SqliteError string | OtherError string

datatype cell =
    CNull                 \<comment> \<open>\<open>None\<close>\<close>
  | CInt int              \<comment> \<open>an INTEGER\<close>
  | CText string          \<comment> \<open>a TEXT (\<open>text_factory = str\<close>)\<close>
  | COther string         \<comment> \<open>a REAL or a BLOB, carried as its \<open>str(v)\<close>: floats are not modelled\<close>

type_synonym row = "cell list"

type_synonym path = "string list"
  \<comment> \<open>the operands of the \<open>/\<close> of \<open>pathlib\<close>, first to last\<close>

record db_run =
  \<comment> \<open>what the statements of the \<open>try\<close> block of \<open>execute_sql\<close> meet, in order\<close>
  connect_exc :: "py_exc option"        \<comment> \<open>\<open>sqlite3.connect(str(db_path), timeout=timeout)\<close>\<close>
  cursor_exc :: "py_exc option"         \<comment> \<open>\<open>conn.text_factory = str; conn.cursor()\<close>\<close>
  execute_exc :: "py_exc option"        \<comment> \<open>\<open>cursor.execute(sql)\<close>\<close>
  fetchall_res :: "py_exc + row list"   \<comment> \<open>\<open>cursor.fetchall()\<close>\<close>
  close_exc :: "py_exc option"          \<comment> \<open>\<open>conn.close()\<close>\<close>

record 'w sqlite_env =
  path_exists :: "'w \<Rightarrow> path \<Rightarrow> py_exc + bool"
    \<comment> \<open>\<open>Path.exists()\<close>: it raises the \<open>OSError\<close> of \<open>stat\<close> (a name that is too long, a
        directory that may not be searched) unless the error says that the file is absent\<close>
  sqlite :: "'w \<Rightarrow> path \<Rightarrow> string \<Rightarrow> rat \<Rightarrow> db_run \<times> 'w"
    \<comment> \<open>database file, statement, timeout\<close>

datatype conn_state = NotOpened | ConnOpen | ConnClosed
  \<comment> \<open>the connection of one call of \<open>execute_sql\<close>, as the call leaves it\<close>

type_synonym exec_result = "bool \<times> row list option \<times> string option"
  \<comment> \<open>\<open>(success, results, error_message)\<close>\<close>

definition get_database_path ::
  "'w sqlite_env \<Rightarrow> 'w \<Rightarrow> string \<Rightarrow> string \<Rightarrow> py_exc + path option" where
  "get_database_path env w databases_dir db_id =
     (let db_path = [databases_dir, db_id, db_id @ ''.sqlite''] in
      case path_exists env w db_path of
        Inl e \<Rightarrow> Inl e
      | Inr True \<Rightarrow> Inr (Some db_path)
      | Inr False \<Rightarrow>
          let db_path = [databases_dir, db_id, ''database.sqlite''] in
          (case path_exists env w db_path of
             Inl e \<Rightarrow> Inl e
           | Inr True \<Rightarrow> Inr (Some db_path)
           | Inr False \<Rightarrow> Inr None))"

definition try_body :: "db_run \<Rightarrow> (py_exc + row list) \<times> conn_state" where
  \<comment> \<open>the \<open>try\<close> block: the first statement that raises ends it\<close>
  "try_body run =
     (case connect_exc run of
        Some e \<Rightarrow> (Inl e, NotOpened)
      | None \<Rightarrow>
     (case cursor_exc run of
        Some e \<Rightarrow> (Inl e, ConnOpen)
      | None \<Rightarrow>
     (case execute_exc run of
        Some e \<Rightarrow> (Inl e, ConnOpen)
      | None \<Rightarrow>
     (case fetchall_res run of
        Inl e \<Rightarrow> (Inl e, ConnOpen)
      | Inr results \<Rightarrow>
     (case close_exc run of
        Some e \<Rightarrow> (Inl e, ConnOpen)
      | None \<Rightarrow> (Inr results, ConnClosed))))))"

definition execute_sql ::
  "'w sqlite_env \<Rightarrow> 'w \<Rightarrow> string \<Rightarrow> string \<Rightarrow> string \<Rightarrow> rat \<Rightarrow>
     (py_exc + (exec_result \<times> conn_state)) \<times> 'w" where
  \<comment> \<open>\<open>get_database_path\<close> is called before the \<open>try\<close>: what it raises leaves the
      function; what the \<open>try\<close> block raises is caught by one of the two handlers\<close>
  "execute_sql env w databases_dir sql db_id timeout =
     (case get_database_path env w databases_dir db_id of
        Inl e \<Rightarrow> (Inl e, w)
      | Inr None \<Rightarrow>
          (Inr ((False, None, Some (''Database not found: '' @ db_id)), NotOpened), w)
      | Inr (Some db_path) \<Rightarrow>
          let (run, w') = sqlite env w db_path sql timeout in
          (case try_body run of
             (Inr results, conn) \<Rightarrow> (Inr ((True, Some results, None), conn), w')
           | (Inl (SqliteError m), conn) \<Rightarrow>
               (Inr ((False, None, Some (''SQL Error: '' @ m)), conn), w')
           | (Inl (OtherError m), conn) \<Rightarrow>
               (Inr ((False, None, Some (''Execution Error: '' @ m)), conn), w')))"

subsection \<open>Result sets as text\<close>

definition hex_digit :: "nat \<Rightarrow> char" where
  "hex_digit n = ''0123456789abcdef'' ! (n mod 16)"

definition repr_char :: "char \<Rightarrow> char \<Rightarrow> string" where
  \<comment> \<open>one character of \<open>repr(s)\<close> inside the quote \<open>q\<close>\<close>
  "repr_char q c =
     (let n = (of_char c :: nat) in
      if c = q \<or> c = CHR 0x5C then [CHR 0x5C, c]
      else if c = CHR 0x09 then [CHR 0x5C, CHR ''t'']
      else if c = CHR 0x0A then [CHR 0x5C, CHR ''n'']
      else if c = CHR 0x0D then [CHR 0x5C, CHR ''r'']
      else if n < 32 \<or> n = 127 then [CHR 0x5C, CHR ''x'', hex_digit (n div 16), hex_digit n]
      else [c])"

definition repr_str :: "string \<Rightarrow> string" where
  \<comment> \<open>\<open>repr(s)\<close>: double quotes only when \<open>s\<close> has a single quote and no double quote\<close>
  "repr_str s =
     (let q = (if CHR 0x27 \<in> set s \<and> CHR 0x22 \<notin> set s then CHR 0x22 else CHR 0x27)
      in q # concat (map (repr_char q) s) @ [q])"

definition repr_tuple :: "string list \<Rightarrow> string" where
  \<comment> \<open>\<open>repr\<close> of a tuple of strings; a one-tuple keeps its comma\<close>
  "repr_tuple t =
     (case t of
        [x] \<Rightarrow> ''('' @ repr_str x @ '',)''
      | _ \<Rightarrow> ''('' @ join '', '' (map repr_str t) @ '')'')"

definition str_list :: "string list list \<Rightarrow> string" where
  \<comment> \<open>\<open>str\<close> of a list of tuples of strings\<close>
  "str_list rows = ''['' @ join '', '' (map repr_tuple rows) @ '']''"

definition str_cell :: "cell \<Rightarrow> string" where
  \<comment> \<open>\<open>str(v)\<close> for a cell that is not \<open>None\<close>\<close>
  "str_cell v = (case v of CNull \<Rightarrow> ''None'' | CInt i \<Rightarrow> str_int i | CText s \<Rightarrow> s | COther s \<Rightarrow> s)"

definition normalize_cell :: "cell \<Rightarrow> string" where
  "normalize_cell v = (if v \<noteq> CNull then strip (lower (str_cell v)) else ''null'')"

definition normalize_row :: "row \<Rightarrow> string list" where
  "normalize_row r = map normalize_cell r"

definition normalize_results :: "row list option \<Rightarrow> string" where
  \<comment> \<open>\<open>list.sort()\<close> on tuples of strings is the lexicographic order of tuples over the
      lexicographic order of strings by code point, the order of \<open>string list\<close> here\<close>
  "normalize_results results =
     (case results of
        None \<Rightarrow> []
      | Some rows \<Rightarrow> str_list (sort (map normalize_row rows)))"

definition results_match :: "row list option \<Rightarrow> row list option \<Rightarrow> bool" where
  "results_match results1 results2 \<longleftrightarrow> normalize_results results1 = normalize_results results2"

definition fmt_opt :: "string option \<Rightarrow> string" where
  \<comment> \<open>an \<open>Optional[str]\<close> inside an f-string\<close>
  "fmt_opt m = (case m of None \<Rightarrow> ''None'' | Some s \<Rightarrow> s)"

definition row_count :: "row list option \<Rightarrow> nat" where
  \<comment> \<open>\<open>len(results) if results else 0\<close>\<close>
  "row_count results = (case results of None \<Rightarrow> 0 | Some rows \<Rightarrow> length rows)"

type_synonym eval_result = "bool \<times> bool option \<times> string"
  \<comment> \<open>\<open>(could_execute, results_match, message)\<close>\<close>

definition evaluate ::
  "'w sqlite_env \<Rightarrow> 'w \<Rightarrow> string \<Rightarrow> string \<Rightarrow> string \<Rightarrow> string \<Rightarrow>
     (py_exc + eval_result) \<times> 'w" where
  \<comment> \<open>no \<open>try\<close> of its own: what \<open>execute_sql\<close> raises leaves \<open>evaluate\<close> too\<close>
  "evaluate env w databases_dir gold_sql predicted_sql db_id =
     (case execute_sql env w databases_dir gold_sql db_id 30 of
        (Inl e, w1) \<Rightarrow> (Inl e, w1)
      | (Inr ((gold_success, gold_results, gold_error), gold_conn), w1) \<Rightarrow>
          if \<not> gold_success
          then (Inr (False, None, ''Gold query failed: '' @ fmt_opt gold_error), w1)
          else
            (case execute_sql env w1 databases_dir predicted_sql db_id 30 of
               (Inl e, w2) \<Rightarrow> (Inl e, w2)
             | (Inr ((pred_success, pred_results, pred_error), pred_conn), w2) \<Rightarrow>
                 if \<not> pred_success
                 then (Inr (True, Some False,
                            ''Predicted query failed: '' @ fmt_opt pred_error), w2)
                 else if results_match gold_results pred_results
                 then (Inr (True, Some True, ''Results match''), w2)
                 else (Inr (True, Some False,
                            ''Results differ (gold: '' @ str_nat (row_count gold_results) @
                            '' rows, predicted: '' @ str_nat (row_count pred_results) @
                            '' rows)''), w2)))"

definition evaluate_execution ::
  "'w sqlite_env \<Rightarrow> 'w \<Rightarrow> string \<Rightarrow> string \<Rightarrow> string \<Rightarrow> string \<Rightarrow>
     (py_exc + (bool option \<times> string)) \<times> 'w" where
  \<comment> \<open>the module-level convenience function\<close>
  "evaluate_execution env w gold_sql predicted_sql db_id databases_dir =
     (case evaluate env w databases_dir gold_sql predicted_sql db_id of
        (Inl e, w') \<Rightarrow> (Inl e, w')
      | (Inr (could_execute, match, message), w') \<Rightarrow>
          if \<not> could_execute then (Inr (None, message), w') else (Inr (match, message), w'))"

definition exc_text :: "py_exc \<Rightarrow> string" where
  \<comment> \<open>\<open>str(e)\<close>\<close>
  "exc_text e = (case e of SqliteError m \<Rightarrow> m | OtherError m \<Rightarrow> m)"

section \<open>BenchmarkResult and BenchmarkReport (benchmarks/core/results.py)\<close>

text \<open>
  Python's unbounded \<open>int\<close> is \<open>int\<close>. The \<open>float\<close> fields and the quotients of the derived
  ratios are exact rationals here: \<open>a / b\<close> on two ints is the double nearest to the quotient
  below, and nothing that follows depends on the rounding.
\<close>

record BenchmarkResult =
  question :: string
  db_id :: string
  gold_sql :: string
  predicted_sql :: string
  exact_match :: bool
  execution_match :: "bool option"
  llm_judge_match :: "bool option"
  llm_judge_score :: int
  llm_judge_reasoning :: string
  is_valid_sql :: bool
  error :: "string option"
  latency_ms :: rat

record BenchmarkReport =
  total_samples :: int
  exact_match_count :: int
  execution_match_count :: int
  llm_judge_match_count :: int
  llm_judge_total_score :: int
  valid_sql_count :: int
  error_count :: int
  total_latency_ms :: rat
  results :: "BenchmarkResult list"

definition new_report :: BenchmarkReport where
  \<comment> \<open>\<open>BenchmarkReport()\<close>\<close>
  "new_report =
     \<lparr>total_samples = 0, exact_match_count = 0, execution_match_count = 0,
      llm_judge_match_count = 0, llm_judge_total_score = 0, valid_sql_count = 0,
      error_count = 0, total_latency_ms = 0, results = []\<rparr>"

definition count_where :: "('a \<Rightarrow> bool) \<Rightarrow> 'a list \<Rightarrow> int" where
  \<comment> \<open>\<open>sum(1 for r in xs if p(r))\<close>\<close>
  "count_where p xs = sum_list (map (\<lambda>r. 1) (filter p xs))"

definition exact_match_accuracy :: "BenchmarkReport \<Rightarrow> rat" where
  "exact_match_accuracy rep =
     (if total_samples rep > 0 then of_int (exact_match_count rep) / of_int (total_samples rep)
      else 0)"

definition execution_accuracy :: "BenchmarkReport \<Rightarrow> rat" where
  "execution_accuracy rep =
     (let executed = count_where (\<lambda>r. execution_match r \<noteq> None) (results rep) in
      if executed = 0 then 0
      else of_int (execution_match_count rep) / of_int executed)"

definition llm_judge_accuracy :: "BenchmarkReport \<Rightarrow> rat" where
  "llm_judge_accuracy rep =
     (let judged = count_where (\<lambda>r. llm_judge_match r \<noteq> None) (results rep) in
      if judged = 0 then 0
      else of_int (llm_judge_match_count rep) / of_int judged)"

definition llm_judge_avg_score :: "BenchmarkReport \<Rightarrow> rat" where
  "llm_judge_avg_score rep =
     (let judged = count_where (\<lambda>r. llm_judge_match r \<noteq> None) (results rep) in
      if judged = 0 then 0
      else of_int (llm_judge_total_score rep) / of_int judged)"

definition valid_sql_rate :: "BenchmarkReport \<Rightarrow> rat" where
  "valid_sql_rate rep =
     (if total_samples rep > 0 then of_int (valid_sql_count rep) / of_int (total_samples rep)
      else 0)"

definition avg_latency_ms :: "BenchmarkReport \<Rightarrow> rat" where
  "avg_latency_ms rep =
     (if total_samples rep > 0 then total_latency_ms rep / of_int (total_samples rep) else 0)"

section \<open>SpiderDataLoader (benchmarks/core/data\_loader.py)\<close>

record table_info =
  \<comment> \<open>one entry of tables.json; \<open>primary_keys\<close> is read with \<open>.get(..., [])\<close>\<close>
  table_names_original :: "string list"
  column_names_original :: "(int \<times> string) list"
  column_types :: "string list"
  primary_keys :: "int list option"

record column =
  \<comment> \<open>the dict \<open>{'name': ..., 'type': ..., 'idx': ...}\<close>\<close>
  col_name :: string
  col_type :: string
  col_idx :: nat

definition enumerate_list :: "'a list \<Rightarrow> (nat \<times> 'a) list" where
  \<comment> \<open>\<open>enumerate(xs)\<close>\<close>
  "enumerate_list xs = zip [0 ..< length xs] xs"

definition group_column ::
  "string list \<Rightarrow> (int \<rightharpoonup> column list) \<Rightarrow> nat \<times> int \<times> string \<Rightarrow> (int \<rightharpoonup> column list)" where
  \<comment> \<open>one pass of the grouping loop over \<open>enumerate(column_names)\<close>\<close>
  "group_column types columns_by_table entry =
     (case entry of (idx, table_idx, name) \<Rightarrow>
        if table_idx = - 1 then columns_by_table
        else
          let known = (case columns_by_table table_idx of None \<Rightarrow> [] | Some cols \<Rightarrow> cols)
          in columns_by_table(table_idx \<mapsto>
               known @ [\<lparr>col_name = name,
                          col_type = (if idx < length types then types ! idx else ''TEXT''),
                          col_idx = idx\<rparr>]))"

definition col_def :: "int list \<Rightarrow> column \<Rightarrow> string" where
  \<comment> \<open>\<open>f"    {col['name']} {col_type}{pk}"\<close>\<close>
  "col_def pks col =
     ''    '' @ col_name col @ '' '' @ upper (col_type col) @
     (if int (col_idx col) \<in> set pks then '' PRIMARY KEY'' else [])"

definition create_stmt :: "int list \<Rightarrow> string \<Rightarrow> column list \<Rightarrow> string" where
  "create_stmt pks table_name cols =
     ''CREATE TABLE '' @ table_name @ '' ('' @ [CHR 0x0A] @
     join ('','' @ [CHR 0x0A]) (map (col_def pks) cols) @
     [CHR 0x0A] @ '');''"

definition build_schema_string :: "table_info \<Rightarrow> string" where
  \<comment> \<open>\<open>SpiderDataLoader._build_schema_string\<close>\<close>
  "build_schema_string info =
     (let table_names = table_names_original info;
          column_names = column_names_original info;
          types = column_types info;
          pks = (case primary_keys info of None \<Rightarrow> [] | Some ks \<Rightarrow> ks);
          columns_by_table = foldl (group_column types) Map.empty (enumerate_list column_names);
          schema_parts =
            concat (map (\<lambda>(table_idx, table_name).
                      case columns_by_table (int table_idx) of
                        None \<Rightarrow> []
                      | Some cols \<Rightarrow> if cols = [] then [] else [create_stmt pks table_name cols])
                    (enumerate_list table_names))
      in join [CHR 0x0A, CHR 0x0A] schema_parts)"

section \<open>SpiderBenchmark (benchmarks/spider\_benchmark.py)\<close>

text \<open>
  The pipeline function, the judge (\<open>judge_sql_equivalence\<close>, whose module is not part of
  the sources), \<open>sqlparse\<close> and the clock are collaborators. A call that raises returns
  \<open>Inl\<close> of \<open>str(e)\<close>. \<open>judge_calls\<close> is not a field of the program: it records the
  arguments of every call of the judge, so that "the judge is invoked" can be stated.
\<close>

record JudgeResult =
  is_equivalent :: bool
  score :: int
  reasoning :: string

record sample =
  \<comment> \<open>one entry of dev.json: the keys \<open>question\<close>, \<open>db_id\<close> and \<open>query\<close>\<close>
  s_question :: string
  s_db_id :: string
  s_query :: string

record 'w collaborators =
  sql_env :: "'w sqlite_env"
  clock :: "'w \<Rightarrow> rat"
    \<comment> \<open>\<open>time.time()\<close>\<close>
  pipeline_func :: "'w \<Rightarrow> string \<Rightarrow> string \<Rightarrow> (string + string) \<times> 'w"
    \<comment> \<open>\<open>pipeline_func(question, schema)\<close>\<close>
  sqlparse_types :: "string \<Rightarrow> string list option"
    \<comment> \<open>\<open>get_type()\<close> of each statement of \<open>sqlparse.parse(sql)\<close>; \<open>None\<close> when it raises\<close>
  judge_sql_equivalence :: "'w \<Rightarrow> string \<Rightarrow> string \<Rightarrow> string \<Rightarrow> (string + JudgeResult) \<times> 'w"
    \<comment> \<open>question, gold SQL, predicted SQL\<close>

record SpiderBenchmark =
  use_llm_judge :: bool
  use_execution :: bool
  databases_dir :: "string option"
  db_schemas :: "string \<rightharpoonup> string"
    \<comment> \<open>\<open>self.loader.db_schemas\<close>\<close>

record 'w run_state =
  report :: BenchmarkReport
  world :: 'w
  judge_calls :: "(string \<times> string \<times> string) list"

definition get_schema :: "SpiderBenchmark \<Rightarrow> string \<Rightarrow> string" where
  \<comment> \<open>\<open>self.db_schemas.get(db_id, "")\<close>\<close>
  "get_schema b db = (case db_schemas b db of None \<Rightarrow> [] | Some schema \<Rightarrow> schema)"

definition valid_sql :: "'w collaborators \<Rightarrow> string \<Rightarrow> bool" where
  \<comment> \<open>\<open>_is_valid_sql\<close>\<close>
  "valid_sql env sql =
     (case sqlparse_types env sql of
        None \<Rightarrow> False
      | Some [] \<Rightarrow> False
      | Some (t # ts) \<Rightarrow> t \<noteq> ''UNKNOWN'')"

definition evaluate_llm_judge ::
  "'w collaborators \<Rightarrow> BenchmarkResult \<Rightarrow> bool \<Rightarrow> 'w run_state \<Rightarrow>
     (string \<times> 'w run_state) + (BenchmarkResult \<times> 'w run_state)" where
  \<comment> \<open>\<open>_evaluate_llm_judge(result, exact_match, report)\<close>; \<open>Inl\<close> when the judge raises,
      with the state at that point\<close>
  "evaluate_llm_judge env result exact st =
     (let rep = report st in
      if exact then
        Inr (result\<lparr>llm_judge_match := Some True, llm_judge_score := 5,
                     llm_judge_reasoning := ''Exact match''\<rparr>,
             st\<lparr>report := rep\<lparr>llm_judge_match_count := llm_judge_match_count rep + 1,
                                 llm_judge_total_score := llm_judge_total_score rep + 5\<rparr>\<rparr>)
      else if is_valid_sql result then
        let call = (question result, gold_sql result, predicted_sql result);
            (answer, w') = judge_sql_equivalence env (world st)
                             (question result) (gold_sql result) (predicted_sql result);
            st' = st\<lparr>world := w', judge_calls := judge_calls st @ [call]\<rparr>
        in (case answer of
              Inl e \<Rightarrow> Inl (e, st')
            | Inr judge_result \<Rightarrow>
                let rep = (if is_equivalent judge_result
                           then rep\<lparr>llm_judge_match_count := llm_judge_match_count rep + 1\<rparr>
                           else rep);
                    rep = rep\<lparr>llm_judge_total_score :=
                                 llm_judge_total_score rep + score judge_result\<rparr>
                in Inr (result\<lparr>llm_judge_match := Some (is_equivalent judge_result),
                                llm_judge_score := score judge_result,
                                llm_judge_reasoning := reasoning judge_result\<rparr>,
                        st'\<lparr>report := rep\<rparr>))
      else Inr (result, st))"

definition evaluate_execution_step ::
  "'w collaborators \<Rightarrow> string \<Rightarrow> BenchmarkResult \<Rightarrow> 'w run_state \<Rightarrow>
     (string \<times> 'w run_state) + (BenchmarkResult \<times> 'w run_state)" where
  \<comment> \<open>\<open>_evaluate_execution(result, report)\<close>; \<open>Inl\<close> when \<open>evaluate_execution\<close> raises,
      with the state at that point\<close>
  "evaluate_execution_step env dir result st =
     (case evaluate_execution (sql_env env) (world st)
             (gold_sql result) (predicted_sql result) (db_id result) dir of
        (Inl e, w') \<Rightarrow> Inl (exc_text e, st\<lparr>world := w'\<rparr>)
      | (Inr (match, message), w') \<Rightarrow>
          let rep = report st;
              rep = (if match = Some True
                     then rep\<lparr>execution_match_count := execution_match_count rep + 1\<rparr>
                     else rep)
          in Inr (result\<lparr>execution_match := match\<rparr>, st\<lparr>world := w', report := rep\<rparr>))"

definition success_result ::
  "string \<Rightarrow> string \<Rightarrow> string \<Rightarrow> string \<Rightarrow> bool \<Rightarrow> bool \<Rightarrow> rat \<Rightarrow> BenchmarkResult" where
  \<comment> \<open>the \<open>BenchmarkResult(...)\<close> of the \<open>try\<close> block; the other fields take their defaults\<close>
  "success_result q db gold predicted exact is_valid latency =
     \<lparr>question = q, db_id = db, gold_sql = gold, predicted_sql = predicted,
      exact_match = exact, execution_match = None, llm_judge_match = None,
      llm_judge_score = 0, llm_judge_reasoning = [], is_valid_sql = is_valid,
      error = None, latency_ms = latency\<rparr>"

definition failure_result :: "string \<Rightarrow> string \<Rightarrow> string \<Rightarrow> string \<Rightarrow> rat \<Rightarrow> BenchmarkResult" where
  \<comment> \<open>the \<open>BenchmarkResult(...)\<close> of the \<open>except\<close> block\<close>
  "failure_result q db gold e latency =
     \<lparr>question = q, db_id = db, gold_sql = gold, predicted_sql = [],
      exact_match = False, execution_match = None, llm_judge_match = None,
      llm_judge_score = 0, llm_judge_reasoning = [], is_valid_sql = False,
      error = Some e, latency_ms = latency\<rparr>"

definition judge_stage ::
  "'w collaborators \<Rightarrow> SpiderBenchmark \<Rightarrow> BenchmarkResult \<Rightarrow> bool \<Rightarrow> 'w run_state \<Rightarrow>
     (string \<times> 'w run_state) + (BenchmarkResult \<times> 'w run_state)" where
  \<comment> \<open>\<open>if self._use_llm_judge: self._evaluate_llm_judge(result, exact_match, report)\<close>\<close>
  "judge_stage env b result exact st =
     (if use_llm_judge b then evaluate_llm_judge env result exact st else Inr (result, st))"

definition execution_stage ::
  "'w collaborators \<Rightarrow> SpiderBenchmark \<Rightarrow> BenchmarkResult \<Rightarrow> 'w run_state \<Rightarrow>
     (string \<times> 'w run_state) + (BenchmarkResult \<times> 'w run_state)" where
  \<comment> \<open>\<open>if self._use_execution and self._databases_dir: self._evaluate_execution(result, report)\<close>;
      \<open>None\<close> and the empty string are the false values of \<open>_databases_dir\<close>\<close>
  "execution_stage env b result st =
     (case databases_dir b of
        Some dir \<Rightarrow>
          if use_execution b \<and> dir \<noteq> [] then evaluate_execution_step env dir result st
          else Inr (result, st)
      | None \<Rightarrow> Inr (result, st))"

definition update_counters :: "bool \<Rightarrow> bool \<Rightarrow> BenchmarkReport \<Rightarrow> BenchmarkReport" where
  \<comment> \<open>the two \<open>if\<close>s under \<open># Update counters\<close>\<close>
  "update_counters exact is_valid rep =
     (let rep = (if exact then rep\<lparr>exact_match_count := exact_match_count rep + 1\<rparr> else rep);
          rep = (if is_valid then rep\<lparr>valid_sql_count := valid_sql_count rep + 1\<rparr> else rep)
      in rep)"

definition try_sample ::
  "'w collaborators \<Rightarrow> SpiderBenchmark \<Rightarrow> string \<Rightarrow> string \<Rightarrow> string \<Rightarrow> string \<Rightarrow> rat \<Rightarrow>
     'w run_state \<Rightarrow> (string \<times> 'w run_state) + (BenchmarkResult \<times> 'w run_state)" where
  \<comment> \<open>the \<open>try\<close> block of \<open>_evaluate_sample\<close>; \<open>Inl\<close> when a statement of it raises (the
      pipeline, the judge or the execution evaluation), with the state at that point: what
      an earlier statement has added to a counter stays\<close>
  "try_sample env b q db gold schema start_time st =
     (case pipeline_func env (world st) q schema of
        (Inl e, w1) \<Rightarrow> Inl (e, st\<lparr>world := w1\<rparr>)
      | (Inr predicted, w1) \<Rightarrow>
          let st1 = st\<lparr>world := w1\<rparr>;
              latency = (clock env w1 - start_time) * 1000;
              exact = evaluate_exact_match gold predicted;
              is_valid = valid_sql env predicted;
              result = success_result q db gold predicted exact is_valid latency
          in (case judge_stage env b result exact st1 of
                Inl raised \<Rightarrow> Inl raised
              | Inr (result, st2) \<Rightarrow>
                  (case execution_stage env b result st2 of
                     Inl raised \<Rightarrow> Inl raised
                   | Inr (result, st3) \<Rightarrow>
                       Inr (result,
                            st3\<lparr>report := update_counters exact is_valid (report st3)\<rparr>))))"

definition evaluate_sample ::
  "'w collaborators \<Rightarrow> SpiderBenchmark \<Rightarrow> sample \<Rightarrow> 'w run_state \<Rightarrow>
     BenchmarkResult \<times> 'w run_state" where
  \<comment> \<open>\<open>_evaluate_sample(sample, report)\<close>\<close>
  "evaluate_sample env b smp st =
     (let q = s_question smp;
          db = s_db_id smp;
          gold = s_query smp;
          schema = get_schema b db;
          start_time = clock env (world st)
      in (case try_sample env b q db gold schema start_time st of
            Inr finished \<Rightarrow> finished
          | Inl (e, st') \<Rightarrow>
              let latency = (clock env (world st') - start_time) * 1000;
                  rep = report st'
              in (failure_result q db gold e latency,
                  st'\<lparr>report := rep\<lparr>error_count := error_count rep + 1\<rparr>\<rparr>)))"

definition loop_step ::
  "'w collaborators \<Rightarrow> SpiderBenchmark \<Rightarrow> 'w run_state \<Rightarrow> sample \<Rightarrow> 'w run_state" where
  \<comment> \<open>the body of the loop of \<open>run\<close>; the progress line it prints changes no state\<close>
  "loop_step env b st smp =
     (let (result, st') = evaluate_sample env b smp st;
          rep = report st'
      in st'\<lparr>report := rep\<lparr>results := results rep @ [result],
                              total_samples := total_samples rep + 1,
                              total_latency_ms := total_latency_ms rep + latency_ms result\<rparr>\<rparr>)"

definition run_loop ::
  "'w collaborators \<Rightarrow> SpiderBenchmark \<Rightarrow> sample list \<Rightarrow> 'w run_state \<Rightarrow> 'w run_state" where
  \<comment> \<open>\<open>for i, sample in enumerate(samples): ...\<close>\<close>
  "run_loop env b samples st = foldl (loop_step env b) st samples"

definition start_state :: "'w \<Rightarrow> 'w run_state" where
  \<comment> \<open>\<open>report = BenchmarkReport()\<close>, before the loop\<close>
  "start_state w = \<lparr>report = new_report, world = w, judge_calls = []\<rparr>"

section \<open>Predicates of the claims\<close>

subsection \<open>Normal forms\<close>

fun has_line_comment :: "string \<Rightarrow> bool" where
  \<comment> \<open>two dashes in a row occur in the string\<close>
  "has_line_comment (c # d # cs) =
     ((c = CHR ''-'' \<and> d = CHR ''-'') \<or> has_line_comment (d # cs))"
| "has_line_comment [c] = False"
| "has_line_comment [] = False"

fun has_block_comment :: "string \<Rightarrow> bool" where
  \<comment> \<open>some \<open>/*\<close> of the string is followed by a \<open>*/\<close> that starts after it\<close>
  "has_block_comment (c # d # cs) =
     ((c = CHR ''/'' \<and> d = CHR ''*'' \<and> find_close cs \<noteq> None) \<or> has_block_comment (d # cs))"
| "has_block_comment [c] = False"
| "has_block_comment [] = False"

definition ends_with_semicolon :: "string \<Rightarrow> bool" where
  "ends_with_semicolon s \<longleftrightarrow> s \<noteq> [] \<and> last s = CHR '';''"

subsection \<open>The invariant of the report\<close>

definition report_inv :: "BenchmarkReport \<Rightarrow> bool" where
  \<comment> \<open>the invariant of the report: \<open>total_samples\<close> and the five counters agree with
      the list of results\<close>
  "report_inv rep \<longleftrightarrow>
     total_samples rep = int (length (results rep)) \<and>
     exact_match_count rep = count_where exact_match (results rep) \<and>
     execution_match_count rep =
       count_where (\<lambda>r. execution_match r = Some True) (results rep) \<and>
     llm_judge_match_count rep =
       count_where (\<lambda>r. llm_judge_match r = Some True) (results rep) \<and>
     valid_sql_count rep = count_where is_valid_sql (results rep) \<and>
     error_count rep = count_where (\<lambda>r. error r \<noteq> None) (results rep)"


subsection \<open>The schema text as the specification words it\<close>

text \<open>
  Group the columns by owning table, leave the sentinel entry out, give each table one
  \<open>CREATE TABLE\<close> statement and join the statements by a blank line. The layout inside
  a statement (one column per line, four blanks of indentation, the type in upper case)
  is the one of the code, which the specification leaves open.
\<close>

definition columns_of :: "table_info \<Rightarrow> nat \<Rightarrow> (nat \<times> int \<times> string) list" where
  \<comment> \<open>the columns owned by the table at index \<open>i\<close>, each with its position in the column
      list; the sentinel entry has owner \<open>-1\<close>, which is no table index\<close>
  "columns_of info i =
     filter (\<lambda>(idx, table_idx, name). table_idx = int i)
       (enumerate_list (column_names_original info))"

definition column_text :: "table_info \<Rightarrow> nat \<times> int \<times> string \<Rightarrow> string" where
  \<comment> \<open>\<open>col type[ PRIMARY KEY]\<close>, the type \<open>TEXT\<close> when the type list has no entry for it\<close>
  "column_text info entry =
     (case entry of (idx, table_idx, name) \<Rightarrow>
        ''    '' @ name @ '' '' @
        upper (if idx < length (column_types info) then column_types info ! idx else ''TEXT'') @
        (if int idx \<in> set (case primary_keys info of None \<Rightarrow> [] | Some ks \<Rightarrow> ks)
         then '' PRIMARY KEY'' else []))"

definition table_statement :: "table_info \<Rightarrow> nat \<times> string \<Rightarrow> string" where
  \<comment> \<open>\<open>CREATE TABLE <name> (col type[ PRIMARY KEY][, ...]);\<close>\<close>
  "table_statement info t =
     (case t of (i, table_name) \<Rightarrow>
        ''CREATE TABLE '' @ table_name @ '' ('' @ [CHR 0x0A] @
        join ('','' @ [CHR 0x0A]) (map (column_text info) (columns_of info i)) @
        [CHR 0x0A] @ '');'')"

definition schema_text_every_table :: "table_info \<Rightarrow> string" where
  \<comment> \<open>the claim as stated: one statement for each table\<close>
  "schema_text_every_table info =
     join [CHR 0x0A, CHR 0x0A]
       (map (table_statement info) (enumerate_list (table_names_original info)))"

definition schema_text_spec :: "table_info \<Rightarrow> string" where
  \<comment> \<open>the claim as amended: one statement for each table that owns a column\<close>
  "schema_text_spec info =
     join [CHR 0x0A, CHR 0x0A]
       (map (table_statement info)
          (filter (\<lambda>(i, table_name). columns_of info i \<noteq> [])
             (enumerate_list (table_names_original info))))"

section \<open>Abstractions used in the proofs\<close>

subsection \<open>Spacing\<close>

text \<open>
  The spacing substitutions and the final \<open>split\<close> and \<open>join\<close> keep the characters that
  are not whitespace and only decide where whitespace stands between them. \<open>skel\<close>
  keeps exactly that information, each substitution becomes a map on the flags
  (\<open>respace\<close>), and the final \<open>join\<close> is \<open>render\<close> of the flags with the first one cleared.
\<close>

fun mark :: "(bool \<times> char) list \<Rightarrow> (bool \<times> char) list" where
  \<comment> \<open>whitespace in front of the first character\<close>
  "mark [] = []"
| "mark ((f, c) # xs) = (True, c) # xs"

fun unmark :: "(bool \<times> char) list \<Rightarrow> (bool \<times> char) list" where
  \<comment> \<open>no whitespace in front of the first character\<close>
  "unmark [] = []"
| "unmark ((f, c) # xs) = (False, c) # xs"

fun skel :: "string \<Rightarrow> (bool \<times> char) list" where
  \<comment> \<open>the characters of a string that are not whitespace, each with the flag
      "whitespace stands in front of it"; trailing whitespace is dropped\<close>
  "skel [] = []"
| "skel (c # cs) = (if is_space c then mark (skel cs) else (False, c) # skel cs)"

definition render :: "(bool \<times> char) list \<Rightarrow> string" where
  \<comment> \<open>the string of a flag list, one blank for each flag that is set\<close>
  "render xs = concat (map (\<lambda>(f, c). if f then [CHR '' '', c] else [c]) xs)"

fun respace :: "(char option \<Rightarrow> char \<Rightarrow> bool \<Rightarrow> bool) \<Rightarrow> char option \<Rightarrow>
    (bool \<times> char) list \<Rightarrow> (bool \<times> char) list" where
  \<comment> \<open>new flags, each from the character before, the character and its old flag\<close>
  "respace g prev [] = []"
| "respace g prev ((f, c) # xs) = (g prev c f, c) # respace g (Some c) xs"

definition around_flag :: "char \<Rightarrow> bool \<Rightarrow> bool \<Rightarrow> char option \<Rightarrow> char \<Rightarrow> bool \<Rightarrow> bool" where
  \<comment> \<open>what \<open>sub_around x pre suf\<close> does to a flag; \<open>P\<close>: \<open>pre\<close> is not empty,
      \<open>S\<close>: \<open>suf\<close> is not empty\<close>
  "around_flag x P S prev c f =
     (if c = x then P \<or> (prev = Some x \<and> S) else if prev = Some x then S else f)"

definition ops_flag :: "char option \<Rightarrow> char \<Rightarrow> bool \<Rightarrow> bool" where
  \<comment> \<open>what \<open>sub_ops\<close> does to a flag: operator characters that touch stay together\<close>
  "ops_flag prev c f =
     (let after_op = (case prev of None \<Rightarrow> False | Some p \<Rightarrow> is_op p) in
      if is_op c then \<not> (after_op \<and> \<not> f) else if after_op then True else f)"

definition spacing_flag :: "char option \<Rightarrow> char \<Rightarrow> bool \<Rightarrow> bool" where
  \<comment> \<open>what \<open>spacing\<close> does to a flag\<close>
  "spacing_flag p c f =
     around_flag (CHR '')'') False True p c
       (around_flag (CHR ''('') True False p c
          (around_flag (CHR '','') False True p c (ops_flag p c f)))"

definition pre_steps :: "string \<Rightarrow> string" where
  \<comment> \<open>the steps of \<open>normalize\<close> before the spacing substitutions, in its order\<close>
  "pre_steps s =
     replace_char (CHR 0x22) (CHR 0x27)
       (rstrip_char (CHR '';'')
          (strip (collapse_ws (strip_block_comments (strip_line_comments (lower s))))))"

definition spacing :: "string \<Rightarrow> string" where
  \<comment> \<open>the four spacing substitutions of \<open>normalize\<close>, in its order\<close>
  "spacing t =
     sub_around (CHR '')'') [] '' ''
       (sub_around (CHR ''('') '' '' []
          (sub_around (CHR '','') [] '' '' (sub_ops t)))"

definition tidy :: "string \<Rightarrow> string" where
  \<comment> \<open>the spacing substitutions followed by \<open>' '.join(sql.split())\<close>\<close>
  "tidy t = join '' '' (split_ws (spacing t))"

subsection \<open>Counters\<close>

definition bump :: "bool \<Rightarrow> int" where
  \<comment> \<open>what one result adds to a counter\<close>
  "bump p = (if p then 1 else 0)"

definition report_delta ::
  "BenchmarkReport \<Rightarrow> BenchmarkReport \<Rightarrow> int \<Rightarrow> int \<Rightarrow> int \<Rightarrow> int \<Rightarrow> int \<Rightarrow> bool" where
  \<comment> \<open>\<open>rep'\<close> is \<open>rep\<close> with the five counters raised by the given amounts; the
      total score of the judge is free\<close>
  "report_delta rep rep' em xm jm vs ec \<longleftrightarrow>
     results rep' = results rep \<and>
     total_samples rep' = total_samples rep \<and>
     total_latency_ms rep' = total_latency_ms rep \<and>
     exact_match_count rep' = exact_match_count rep + em \<and>
     execution_match_count rep' = execution_match_count rep + xm \<and>
     llm_judge_match_count rep' = llm_judge_match_count rep + jm \<and>
     valid_sql_count rep' = valid_sql_count rep + vs \<and>
     error_count rep' = error_count rep + ec"

definition same_sample :: "BenchmarkResult \<Rightarrow> BenchmarkResult \<Rightarrow> bool" where
  \<comment> \<open>the fields an evaluator stage leaves alone\<close>
  "same_sample r r' \<longleftrightarrow>
     question r' = question r \<and> db_id r' = db_id r \<and> gold_sql r' = gold_sql r \<and>
     predicted_sql r' = predicted_sql r \<and> exact_match r' = exact_match r \<and>
     is_valid_sql r' = is_valid_sql r \<and> error r' = error r \<and> latency_ms r' = latency_ms r"

definition counted :: "BenchmarkReport \<Rightarrow> BenchmarkResult \<Rightarrow> BenchmarkReport \<Rightarrow> bool" where
  \<comment> \<open>\<open>rep'\<close> is \<open>rep\<close> with each counter raised by 1 when \<open>r\<close> satisfies its predicate\<close>
  "counted rep r rep' \<longleftrightarrow>
     report_delta rep rep' (bump (exact_match r)) (bump (execution_match r = Some True))
       (bump (llm_judge_match r = Some True)) (bump (is_valid_sql r)) (bump (error r \<noteq> None))"

definition counted_outcome ::
  "BenchmarkReport \<Rightarrow> BenchmarkResult \<Rightarrow> BenchmarkReport \<Rightarrow> bool" where
  \<comment> \<open>\<open>counted\<close> without the counter of the judge, which may move by any amount\<close>
  "counted_outcome rep r rep' \<longleftrightarrow>
     report_delta rep rep' (bump (exact_match r)) (bump (execution_match r = Some True))
       (llm_judge_match_count rep' - llm_judge_match_count rep)
       (bump (is_valid_sql r)) (bump (error r \<noteq> None))"

definition outcome_inv :: "BenchmarkReport \<Rightarrow> bool" where
  \<comment> \<open>\<open>report_inv\<close> without the counter of the judge\<close>
  "outcome_inv rep \<longleftrightarrow>
     total_samples rep = int (length (results rep)) \<and>
     exact_match_count rep = count_where exact_match (results rep) \<and>
     execution_match_count rep =
       count_where (\<lambda>r. execution_match r = Some True) (results rep) \<and>
     valid_sql_count rep = count_where is_valid_sql (results rep) \<and>
     error_count rep = count_where (\<lambda>r. error r \<noteq> None) (results rep)"

subsection \<open>Grouping\<close>

definition make_column :: "string list \<Rightarrow> nat \<times> int \<times> string \<Rightarrow> column" where
  \<comment> \<open>the dict that the grouping loop appends for one entry of the column list\<close>
  "make_column types entry =
     (case entry of (idx, table_idx, name) \<Rightarrow>
        \<lparr>col_name = name,
         col_type = (if idx < length types then types ! idx else ''TEXT''),
         col_idx = idx\<rparr>)"

section \<open>Instances for the witnesses\<close>

definition demo_sqlite :: "unit sqlite_env" where
  \<comment> \<open>a world in which every database file exists, the statement \<open>SELECT * FROM missing\<close>
      fails in the engine, and every other statement returns its own text as one row\<close>
  "demo_sqlite =
     \<lparr>path_exists = (\<lambda>w p. Inr True),
      sqlite = (\<lambda>w p sql timeout.
        (\<lparr>connect_exc = None, cursor_exc = None,
          execute_exc = (if sql = ''SELECT * FROM missing''
                         then Some (SqliteError ''no such table: missing'') else None),
          fetchall_res = Inr [[CText sql]], close_exc = None\<rparr>, w))\<rparr>"

definition name_limit_sqlite :: "unit sqlite_env" where
  \<comment> \<open>a file system whose names have at most 255 characters: \<open>stat\<close> on a path with a
      longer component fails with \<open>ENAMETOOLONG\<close>, which \<open>Path.exists()\<close> raises again
      as an \<open>OSError\<close> whose text ends with the path in quotes; every other path exists,
      and the engine is the one of \<open>demo_sqlite\<close>\<close>
  "name_limit_sqlite =
     \<lparr>path_exists = (\<lambda>w p.
        if list_ex (\<lambda>name. 255 < length name) p
        then Inl (OtherError (''[Errno 36] File name too long: '' @
                              [CHR 0x27] @ join ''/'' p @ [CHR 0x27]))
        else Inr True),
      sqlite = sqlite demo_sqlite\<rparr>"

definition demo_result :: "bool option \<Rightarrow> BenchmarkResult" where
  \<comment> \<open>a result with the given \<open>execution_match\<close>\<close>
  "demo_result m =
     \<lparr>question = ''q'', db_id = ''d'', gold_sql = ''SELECT 1'', predicted_sql = ''SELECT 1'',
      exact_match = False, execution_match = m, llm_judge_match = None, llm_judge_score = 0,
      llm_judge_reasoning = [], is_valid_sql = True, error = None, latency_ms = 0\<rparr>"

definition demo_report :: BenchmarkReport where
  \<comment> \<open>ten results: three matches, one mismatch, six whose gold query could not run\<close>
  "demo_report =
     new_report\<lparr>total_samples := 10, execution_match_count := 3,
       results := replicate 3 (demo_result (Some True)) @ [demo_result (Some False)] @
                  replicate 6 (demo_result None)\<rparr>"

definition demo_collab :: "unit collaborators" where
  \<comment> \<open>a pipeline that raises on the question \<open>boom\<close> and otherwise answers with the
      question itself, and a judge that accepts with score 4\<close>
  "demo_collab =
     \<lparr>sql_env = demo_sqlite,
      clock = (\<lambda>w. 0),
      pipeline_func = (\<lambda>w q schema. (if q = ''boom'' then Inl ''failed'' else Inr q, w)),
      sqlparse_types = (\<lambda>sql. Some [''SELECT'']),
      judge_sql_equivalence = (\<lambda>w q gold predicted.
        (Inr \<lparr>is_equivalent = True, score = 4, reasoning = ''same rows''\<rparr>, w))\<rparr>"


definition name_limit_collab :: "unit collaborators" where
  \<comment> \<open>the collaborators of \<open>demo_collab\<close> over the file system of \<open>name_limit_sqlite\<close>\<close>
  "name_limit_collab = demo_collab\<lparr>sql_env := name_limit_sqlite\<rparr>"

definition exec_bench :: SpiderBenchmark where
  \<comment> \<open>a benchmark with the judge and the execution evaluation enabled\<close>
  "exec_bench =
     \<lparr>use_llm_judge = True, use_execution = True, databases_dir = Some ''dbs'',
      db_schemas = Map.empty\<rparr>"

definition long_name_sample :: sample where
  \<comment> \<open>a sample whose \<open>db_id\<close> has 300 characters; the pipeline of \<open>demo_collab\<close> answers
      with the question, which is the gold query\<close>
  "long_name_sample =
     \<lparr>s_question = ''SELECT 1'', s_db_id = replicate 300 (CHR ''a''), s_query = ''SELECT 1''\<rparr>"


definition demo_tables :: table_info where
  \<comment> \<open>two tables; only \<open>singer\<close> owns a column\<close>
  "demo_tables =
     \<lparr>table_names_original = [''singer'', ''staging''],
      column_names_original = [(- 1, ''*''), (0, ''id'')],
      column_types = [''text'', ''number''],
      primary_keys = Some [1]\<rparr>"

section \<open>Claims\<close>

subsection \<open>Normalizer\<close>



lemma mark_idem [simp]: "mark (mark xs) = mark xs"
  by (cases xs) auto

lemma unmark_mark [simp]: "unmark (mark xs) = unmark xs"
  by (cases xs) auto

lemma unmark_idem [simp]: "unmark (unmark xs) = unmark xs"
  by (cases xs) auto

lemma skel_spaces: "\<forall>c \<in> set ws. is_space c \<Longrightarrow> skel (ws @ s) = (if ws = [] then skel s else mark (skel s))"
  by (induction ws) auto

lemma skel_all_spaces: "\<forall>c \<in> set ws. is_space c \<Longrightarrow> skel ws = []"
  by (induction ws) auto

lemma skel_dropWhile: "skel (dropWhile is_space s) = unmark (skel s)"
  by (induction s) (auto, (metis unmark.elims list.discI)?)

lemma takeWhile_spaces: "\<forall>c \<in> set (takeWhile is_space s). is_space c"
  by (auto dest: set_takeWhileD)

lemma skel_nonspace: "\<not> is_space c \<Longrightarrow> skel (c # s) = (False, c) # skel s"
  by simp

lemma skel_split:
  assumes "dropWhile is_space s = c # cs"
  shows "skel s = (takeWhile is_space s \<noteq> [], c) # skel cs"
proof -
  have c: "\<not> is_space c"
    using assms hd_dropWhile [of is_space s] by (metis list.discI list.sel(1))
  have "s = takeWhile is_space s @ c # cs"
    using assms takeWhile_dropWhile_id [of is_space s] by simp
  then have "skel s = skel (takeWhile is_space s @ c # cs)" by simp
  also have "\<dots> = (if takeWhile is_space s = [] then skel (c # cs) else mark (skel (c # cs)))"
    by (rule skel_spaces) (auto dest: set_takeWhileD)
  finally show ?thesis using c by simp
qed

lemma skel_empty:
  assumes "dropWhile is_space s = []"
  shows "skel s = []"
proof -
  have "\<forall>c \<in> set s. is_space c"
    using assms by (simp add: dropWhile_eq_Nil_conv)
  then show ?thesis by (rule skel_all_spaces)
qed

lemma around_flag_first:
  "around_flag x P S None x f = P"
  "c \<noteq> x \<Longrightarrow> around_flag x P S None c f = f"
  by (simp_all add: around_flag_def)

lemma respace_after_target:
  "respace (around_flag x P S) (Some x) L =
     (if S then mark (respace (around_flag x P S) None (unmark L))
      else respace (around_flag x P S) None (unmark L))"
  by (cases L) (auto simp: around_flag_def)

lemma respace_after_other:
  "c \<noteq> x \<Longrightarrow> respace (around_flag x P S) (Some c) L = respace (around_flag x P S) None L"
  by (cases L) (auto simp: around_flag_def)

lemma skel_sub_around:
  assumes "\<forall>c \<in> set pre. is_space c" and "\<forall>c \<in> set suf. is_space c" and "\<not> is_space x"
  shows "skel (sub_around x pre suf s) =
         respace (around_flag x (pre \<noteq> []) (suf \<noteq> [])) None (skel s)"
  using assms
proof (induction x pre suf s rule: sub_around.induct)
  case (1 x pre suf s)
  show ?case
  proof (cases "dropWhile is_space s")
    case Nil
    have "sub_around x pre suf s = s"
      by (subst sub_around.simps) (simp only: Nil list.case)
    then show ?thesis
      by (simp add: skel_empty [OF Nil])
  next
    case (Cons c cs)
    note sk = skel_split [OF Cons]
    show ?thesis
    proof (cases "c = x")
      case True
      have ih: "skel (sub_around x pre suf (dropWhile is_space cs)) =
          respace (around_flag x (pre \<noteq> []) (suf \<noteq> [])) None (unmark (skel cs))"
        using "1.IH"(1) [OF Cons True] "1.prems" by (simp add: skel_dropWhile)
      have "sub_around x pre suf s = pre @ c # suf @ sub_around x pre suf (dropWhile is_space cs)"
        by (subst sub_around.simps) (simp only: Cons True list.case simp_thms if_True)
      then have "skel (sub_around x pre suf s) =
          (pre \<noteq> [], c) #
            (if suf = [] then skel (sub_around x pre suf (dropWhile is_space cs))
             else mark (skel (sub_around x pre suf (dropWhile is_space cs))))"
        using "1.prems" True by (simp add: skel_spaces)
      then show ?thesis
        unfolding ih sk using True
        by (simp add: respace_after_target around_flag_first)
    next
      case False
      have ih: "skel (sub_around x pre suf cs) =
          respace (around_flag x (pre \<noteq> []) (suf \<noteq> [])) None (skel cs)"
        using "1.IH"(2) [OF Cons False] "1.prems" by simp
      have c: "\<not> is_space c"
        using Cons hd_dropWhile [of is_space s] by (metis list.discI list.sel(1))
      have "sub_around x pre suf s = takeWhile is_space s @ c # sub_around x pre suf cs"
        by (subst sub_around.simps) (simp only: Cons False list.case simp_thms if_False)
      then have "skel (sub_around x pre suf s) =
          (takeWhile is_space s \<noteq> [], c) # skel (sub_around x pre suf cs)"
        using c skel_spaces [OF takeWhile_spaces, of s "c # sub_around x pre suf cs"] by simp
      then show ?thesis
        unfolding ih sk using False
        by (simp add: respace_after_other around_flag_first)
    qed
  qed
qed

lemma ops_flag_first:
  "is_op c \<Longrightarrow> ops_flag None c f = True"
  "\<not> is_op c \<Longrightarrow> ops_flag None c f = f"
  by (simp_all add: ops_flag_def)

lemma skel_nonspaces:
  "\<forall>c \<in> set run. \<not> is_space c \<Longrightarrow> skel (run @ t) = map (Pair False) run @ skel t"
  by (induction run) auto

lemma is_op_not_space: "is_op c \<Longrightarrow> \<not> is_space c"
  by (auto simp: is_op_def is_space_def)

lemma respace_ops_run:
  "is_op p \<Longrightarrow> \<forall>r \<in> set run. is_op r \<Longrightarrow>
   respace ops_flag (Some p) (map (Pair False) run @ L) =
     map (Pair False) run @ respace ops_flag (Some (last (p # run))) L"
  by (induction run arbitrary: p) (auto simp: ops_flag_def)

lemma respace_ops_after_op:
  assumes "is_op p" and "\<And>c' L'. L = (False, c') # L' \<Longrightarrow> \<not> is_op c'"
  shows "respace ops_flag (Some p) L = mark (respace ops_flag None (unmark L))"
proof (cases L)
  case Nil
  then show ?thesis by simp
next
  case (Cons a L')
  obtain f c' where a: "a = (f, c')" by (cases a)
  show ?thesis
    using assms(1) assms(2) [of c' L'] by (auto simp: Cons a ops_flag_def)
qed

lemma respace_ops_after_other:
  "\<not> is_op c \<Longrightarrow> respace ops_flag (Some c) L = respace ops_flag None L"
  by (cases L) (auto simp: ops_flag_def)

lemma skel_head_unmarked:
  "skel s = (False, c) # L \<Longrightarrow> \<exists>t. s = c # t"
  by (cases s) (auto split: if_splits elim: mark.elims)

lemma skel_sub_ops:
  "skel (sub_ops s) = respace ops_flag None (skel s)"
proof (induction s rule: sub_ops.induct)
  case (1 s)
  show ?case
  proof (cases "dropWhile is_space s")
    case Nil
    have "sub_ops s = s"
      by (subst sub_ops.simps) (simp only: Nil list.case)
    then show ?thesis
      by (simp add: skel_empty [OF Nil])
  next
    case (Cons c cs)
    note sk = skel_split [OF Cons]
    have c: "\<not> is_space c"
      using Cons hd_dropWhile [of is_space s] by (metis list.discI list.sel(1))
    show ?thesis
    proof (cases "is_op c")
      case True
      define run where "run = takeWhile is_op cs"
      define rest where "rest = dropWhile is_op cs"
      have cs: "cs = run @ rest" by (simp add: run_def rest_def)
      have run: "\<forall>r \<in> set run. is_op r"
        by (auto simp: run_def dest: set_takeWhileD)
      then have run_ns: "\<forall>r \<in> set run. \<not> is_space r"
        by (auto dest: is_op_not_space)
      have ih: "skel (sub_ops (dropWhile is_space rest)) =
          respace ops_flag None (unmark (skel rest))"
        using "1.IH"(1) [OF Cons True] by (simp add: skel_dropWhile rest_def)
      have "sub_ops s = '' '' @ c # run @ '' '' @ sub_ops (dropWhile is_space rest)"
        by (subst sub_ops.simps) (simp only: Cons True list.case simp_thms if_True run_def rest_def)
      then have lhs: "skel (sub_ops s) =
          (True, c) # map (Pair False) run @ mark (skel (sub_ops (dropWhile is_space rest)))"
        using c run_ns
          skel_spaces [of "'' ''" "sub_ops (dropWhile is_space rest)"]
        by (simp add: skel_nonspaces is_space_def)
      have head: "\<not> is_op c'" if "skel rest = (False, c') # L'" for c' L'
      proof -
        from skel_head_unmarked [OF that] obtain t where t: "rest = c' # t" by blast
        then show ?thesis
          using hd_dropWhile [of is_op cs] by (simp add: rest_def)
      qed
      have last_op: "is_op (last (c # run))"
        using True run by (cases run rule: rev_cases) auto
      have "respace ops_flag None (skel s) =
          (True, c) # respace ops_flag (Some c) (map (Pair False) run @ skel rest)"
        unfolding sk using True by (simp add: ops_flag_first cs skel_nonspaces [OF run_ns])
      also have "\<dots> = (True, c) # map (Pair False) run @
          respace ops_flag (Some (last (c # run))) (skel rest)"
        by (simp only: respace_ops_run [OF True run])
      also have "\<dots> = (True, c) # map (Pair False) run @
          mark (respace ops_flag None (unmark (skel rest)))"
        by (simp only: respace_ops_after_op [OF last_op head])
      finally show ?thesis
        unfolding lhs ih by simp
    next
      case False
      have ih: "skel (sub_ops cs) = respace ops_flag None (skel cs)"
        using "1.IH"(2) [OF Cons False] by simp
      have "sub_ops s = takeWhile is_space s @ c # sub_ops cs"
        by (subst sub_ops.simps) (simp only: Cons False list.case simp_thms if_False)
      then have "skel (sub_ops s) = (takeWhile is_space s \<noteq> [], c) # skel (sub_ops cs)"
        using c skel_spaces [OF takeWhile_spaces, of s "c # sub_ops cs"] by simp
      then show ?thesis
        unfolding ih sk using False
        by (simp add: respace_ops_after_other ops_flag_first)
    qed
  qed
qed

lemma join_Cons: "join sep (x # xs) = (if xs = [] then x else x @ sep @ join sep xs)"
  by (cases xs) simp_all

lemma render_Cons:
  "render ((f, c) # xs) = (if f then [CHR '' '', c] else [c]) @ render xs"
  by (simp add: render_def)

lemma render_Nil [simp]: "render [] = []"
  by (simp add: render_def)

lemma render_mark: "L \<noteq> [] \<Longrightarrow> render (mark L) = CHR '' '' # render (unmark L)"
  by (cases L) (auto simp: render_Cons)

lemma mark_Nil_iff [simp]: "mark L = [] \<longleftrightarrow> L = []"
  by (cases L) auto

lemma split_acc_Nil_iff: "split_acc cur s = [] \<longleftrightarrow> cur = [] \<and> skel s = []"
  by (induction s arbitrary: cur) auto

lemma join_split_acc:
  "join '' '' (split_acc cur s) =
     (if cur = [] then render (unmark (skel s)) else cur @ render (skel s))"
proof (induction s arbitrary: cur)
  case Nil
  show ?case by simp
next
  case (Cons c cs)
  show ?case
  proof (cases "is_space c")
    case True
    show ?thesis
    proof (cases "cur = []")
      case True
      then show ?thesis using \<open>is_space c\<close> Cons.IH [of "[]"] by simp
    next
      case False
      then show ?thesis
        using \<open>is_space c\<close> Cons.IH [of "[]"]
        by (simp add: join_Cons split_acc_Nil_iff render_mark)
    qed
  next
    case False
    then show ?thesis
      using Cons.IH [of "cur @ [c]"] by (cases "skel cs") (simp_all add: render_Cons)
  qed
qed

lemma join_split_ws: "join '' '' (split_ws s) = render (unmark (skel s))"
  by (simp add: split_ws_def join_split_acc)

lemma snd_mark [simp]: "map snd (mark L) = map snd L"
  by (cases L) auto

lemma snd_unmark [simp]: "map snd (unmark L) = map snd L"
  by (cases L) auto

lemma snd_respace [simp]: "map snd (respace g prev L) = map snd L"
  by (induction L arbitrary: prev) auto

lemma snd_skel: "map snd (skel s) = filter (\<lambda>c. \<not> is_space c) s"
  by (induction s) auto

lemma skel_render:
  "\<forall>c \<in> set (map snd M). \<not> is_space c \<Longrightarrow> skel (render M) = M"
proof (induction M)
  case Nil
  show ?case by simp
next
  case (Cons a M)
  obtain f c where a: "a = (f, c)" by (cases a)
  have "CHR '' '' \<noteq> c" "is_space (CHR '' '')"
    using Cons.prems by (auto simp: a is_space_def)
  then show ?case using Cons by (auto simp: a render_Cons)
qed

lemma respace_comp:
  "respace g2 prev (respace g1 prev L) = respace (\<lambda>p c f. g2 p c (g1 p c f)) prev L"
  by (induction L arbitrary: prev) auto

lemma respace_idem:
  "(\<And>p c f. g p c (g p c f) = g p c f) \<Longrightarrow> respace g prev (respace g prev L) = respace g prev L"
  by (induction L arbitrary: prev) auto

lemma unmark_respace: "unmark (respace g prev (unmark L)) = unmark (respace g prev L)"
  by (cases L) auto

lemma skel_spacing: "skel (spacing t) = respace spacing_flag None (skel t)"
proof -
  have sp: "\<forall>c \<in> set '' ''. is_space c" "\<forall>c \<in> set []. is_space c"
    by (simp_all add: is_space_def)
  have ns: "\<not> is_space (CHR '')'')" "\<not> is_space (CHR ''('')" "\<not> is_space (CHR '','')"
    by (simp_all add: is_space_def)
  have flag: "spacing_flag =
      (\<lambda>p c f. around_flag (CHR '')'') False True p c
         (around_flag (CHR ''('') True False p c
            (around_flag (CHR '','') False True p c (ops_flag p c f))))"
    by (intro ext) (simp add: spacing_flag_def)
  show ?thesis
    unfolding spacing_def flag
    by (simp add: skel_sub_around sp ns skel_sub_ops respace_comp)
qed

lemma spacing_flag_idem: "spacing_flag p c (spacing_flag p c f) = spacing_flag p c f"
  by (cases f) (auto simp: spacing_flag_def around_flag_def ops_flag_def Let_def)

lemma tidy_render: "tidy t = render (unmark (respace spacing_flag None (skel t)))"
  by (simp add: tidy_def join_split_ws skel_spacing)

lemma skel_nonspace_chars: "\<forall>c \<in> set (map snd (skel s)). \<not> is_space c"
  by (simp add: snd_skel)

lemma tidy_idem: "tidy (tidy t) = tidy t"
proof -
  define L where "L = respace spacing_flag None (skel t)"
  have chars: "\<forall>c \<in> set (map snd (unmark L)). \<not> is_space c"
    using skel_nonspace_chars [of t] by (simp add: L_def)
  have "tidy (tidy t) = render (unmark (respace spacing_flag None (skel (render (unmark L)))))"
    by (simp add: tidy_render L_def)
  also have "\<dots> = render (unmark (respace spacing_flag None (unmark L)))"
    by (simp only: skel_render [OF chars])
  also have "\<dots> = render (unmark (respace spacing_flag None L))"
    by (simp only: unmark_respace)
  also have "\<dots> = render (unmark L)"
    unfolding L_def by (simp add: respace_idem spacing_flag_idem)
  finally show ?thesis by (simp add: tidy_render L_def)
qed

lemma normalize_phases:
  "normalize s = (if s = [] then [] else strip (tidy (pre_steps s)))"
  by (simp add: normalize_def pre_steps_def tidy_def spacing_def Let_def)

lemma no_line_comment: "\<not> has_line_comment s \<Longrightarrow> strip_line_comments s = s"
  by (induction s rule: has_line_comment.induct) auto

lemma no_block_comment: "\<not> has_block_comment s \<Longrightarrow> strip_block_comments s = s"
  by (induction s rule: has_block_comment.induct) (auto split: option.splits)

lemma no_trailing_semicolon:
  "\<not> ends_with_semicolon s \<Longrightarrow> rstrip_char (CHR '';'') s = s"
  by (cases s rule: rev_cases) (auto simp: ends_with_semicolon_def rstrip_char_def)

lemma rstrip_id: "s = [] \<or> \<not> is_space (last s) \<Longrightarrow> rstrip s = s"
  by (cases s rule: rev_cases) (auto simp: rstrip_def)

lemma lstrip_id: "s = [] \<or> \<not> is_space (hd s) \<Longrightarrow> lstrip s = s"
  by (cases s) (auto simp: lstrip_def)

lemma render_eq_Nil [simp]: "render M = [] \<longleftrightarrow> M = []"
proof (cases M)
  case Nil
  then show ?thesis by simp
next
  case (Cons a M')
  obtain f c where "a = (f, c)" by (cases a)
  then show ?thesis using Cons by (simp add: render_Cons)
qed

lemma last_render: "M \<noteq> [] \<Longrightarrow> last (render M) = snd (last M)"
proof (induction M)
  case Nil
  then show ?case by simp
next
  case (Cons a M)
  obtain f c where a: "a = (f, c)" by (cases a)
  show ?case
  proof (cases "M = []")
    case True
    then show ?thesis by (simp add: a render_Cons)
  next
    case False
    then show ?thesis using Cons.IH by (simp add: a render_Cons)
  qed
qed

lemma hd_render_unmark: "M \<noteq> [] \<Longrightarrow> hd (render (unmark M)) = snd (hd M)"
  by (cases M) (auto simp: render_Cons)

lemma strip_render:
  assumes "\<forall>c \<in> set (map snd M). \<not> is_space c"
  shows "strip (render (unmark M)) = render (unmark M)"
proof (cases "M = []")
  case True
  then show ?thesis by (simp add: strip_def lstrip_def rstrip_def)
next
  case False
  then have "unmark M \<noteq> []" by (cases M) auto
  then have "last (render (unmark M)) = snd (last (unmark M))"
    by (rule last_render)
  moreover have "snd (last (unmark M)) \<in> set (map snd M)"
    using \<open>unmark M \<noteq> []\<close> by (metis last_in_set last_map map_is_Nil_conv snd_unmark)
  ultimately have l: "\<not> is_space (last (render (unmark M)))"
    using assms by auto
  have "snd (hd M) \<in> set (map snd M)"
    using False by (cases M) auto
  then have h: "\<not> is_space (hd (render (unmark M)))"
    using assms False by (simp add: hd_render_unmark)
  show ?thesis
    by (simp add: strip_def lstrip_id h rstrip_id l)
qed

lemma collapse_render:
  "\<forall>c \<in> set (map snd M). \<not> is_space c \<Longrightarrow> collapse_ws (render M) = render M"
proof (induction M)
  case Nil
  show ?case by simp
next
  case (Cons a M)
  obtain f c where a: "a = (f, c)" by (cases a)
  have "is_space (CHR '' '')" by (simp add: is_space_def)
  then show ?case using Cons by (auto simp: a render_Cons)
qed

lemma set_render: "set (render M) \<subseteq> insert (CHR '' '') (set (map snd M))"
  by (induction M) (auto simp: render_Cons split: if_splits)

lemma set_tidy: "set (tidy t) \<subseteq> insert (CHR '' '') (set t)"
  using set_render [of "unmark (respace spacing_flag None (skel t))"]
  by (auto simp: tidy_render snd_skel)

lemma set_strip_line_comments: "set (strip_line_comments s) \<subseteq> set s"
  by (induction s rule: strip_line_comments.induct) (auto dest: set_dropWhileD)

lemma set_find_close: "find_close s = Some r \<Longrightarrow> set r \<subseteq> set s"
  by (induction s rule: find_close.induct) (auto split: if_splits)

lemma set_strip_block_comments: "set (strip_block_comments s) \<subseteq> set s"
proof (induction s rule: strip_block_comments.induct)
  case 1
  show ?case by simp
next
  case (2 c)
  show ?case by simp
next
  case (3 c d cs)
  show ?case
  proof (cases "c = CHR ''/'' \<and> d = CHR ''*''")
    case True
    show ?thesis
    proof (cases "find_close cs")
      case None
      then have "set (strip_block_comments (d # cs)) \<subseteq> set (d # cs)"
        using True "3.IH" by simp
      then show ?thesis using True None by auto
    next
      case (Some r)
      then have "set (strip_block_comments r) \<subseteq> set r"
        using True "3.IH" by simp
      then have "set (strip_block_comments r) \<subseteq> set cs"
        using set_find_close [OF Some] by blast
      then show ?thesis using True Some by auto
    qed
  next
    case False
    then have "set (strip_block_comments (d # cs)) \<subseteq> set (d # cs)"
      using "3.IH" by simp
    then show ?thesis using False by auto
  qed
qed

lemma set_collapse_ws: "set (collapse_ws s) \<subseteq> insert (CHR '' '') (set s)"
  by (induction s rule: collapse_ws.induct) (auto dest: set_dropWhileD)

lemma set_dropWhile_subset: "set (dropWhile P xs) \<subseteq> set xs"
  by (auto dest: set_dropWhileD)

lemma set_strip: "set (strip s) \<subseteq> set s"
  using set_dropWhile_subset [of is_space "rev (dropWhile is_space s)"]
    set_dropWhile_subset [of is_space s]
  by (auto simp: strip_def lstrip_def rstrip_def)

lemma set_rstrip_char: "set (rstrip_char ch s) \<subseteq> set s"
  by (auto simp: rstrip_char_def dest: set_dropWhileD)

lemma set_pre_steps:
  "set (pre_steps s) \<subseteq> {CHR '' '', CHR 0x27} \<union> (set (lower s) - {CHR 0x22})"
proof -
  have "set (strip_line_comments (lower s)) \<subseteq> set (lower s)"
    by (rule set_strip_line_comments)
  then have "set (strip_block_comments (strip_line_comments (lower s))) \<subseteq> set (lower s)"
    using set_strip_block_comments by blast
  then have "set (collapse_ws (strip_block_comments (strip_line_comments (lower s)))) \<subseteq>
      insert (CHR '' '') (set (lower s))"
    using set_collapse_ws by blast
  then have "set (rstrip_char (CHR '';'')
      (strip (collapse_ws (strip_block_comments (strip_line_comments (lower s)))))) \<subseteq>
      insert (CHR '' '') (set (lower s))"
    using set_strip set_rstrip_char by blast
  then show ?thesis
    by (auto simp: pre_steps_def replace_char_def)
qed

lemma lower_char_idem: "lower_char (lower_char c) = lower_char c"
  by (auto simp: lower_char_def Let_def)

lemma lower_fixed: "\<forall>c \<in> set s. lower_char c = c \<Longrightarrow> lower s = s"
  by (simp add: lower_def map_idI)

lemma replace_absent: "a \<notin> set s \<Longrightarrow> replace_char a b s = s"
  by (induction s) (auto simp: replace_char_def)

text \<open>
  C1, amended. \<open>normalize (normalize s) = normalize s\<close> for every \<open>s\<close> whose normal form
  contains no \<open>--\<close>, contains no block comment \<open>/* ... */\<close> and does not end with a
  semicolon. On such a normal form the lower-casing, the two comment removals, the
  whitespace collapse, the strip, the removal of trailing semicolons and the quote
  replacement change nothing, and the spacing phase is idempotent (\<open>tidy_idem\<close>).
\<close>

theorem normalize_idempotent_when_clean:
  assumes "\<not> has_line_comment (normalize s)"
    and "\<not> has_block_comment (normalize s)"
    and "\<not> ends_with_semicolon (normalize s)"
  shows "normalize (normalize s) = normalize s"
proof (cases "s = []")
  case True
  then show ?thesis by (simp add: normalize_phases)
next
  case False
  define t where "t = pre_steps s"
  define M where "M = respace spacing_flag None (skel t)"
  have chars: "\<forall>c \<in> set (map snd M). \<not> is_space c"
    using skel_nonspace_chars [of t] by (simp add: M_def)
  have o: "normalize s = tidy t"
    using False by (simp add: normalize_phases t_def tidy_render strip_render chars [unfolded M_def])
  have o_render: "tidy t = render (unmark M)"
    by (simp add: tidy_render M_def)
  have sub: "set (tidy t) \<subseteq> {CHR '' '', CHR 0x27} \<union> (set (lower s) - {CHR 0x22})"
    using set_tidy [of t] set_pre_steps [of s] by (auto simp: t_def)
  have "\<forall>c \<in> set (tidy t). lower_char c = c"
  proof
    fix c assume "c \<in> set (tidy t)"
    then consider "c = CHR '' ''" | "c = CHR 0x27" | "c \<in> set (lower s)"
      using sub by auto
    then show "lower_char c = c"
    proof cases
      case 1 then show ?thesis by (simp add: lower_char_def)
    next
      case 2 then show ?thesis by (simp add: lower_char_def)
    next
      case 3 then show ?thesis by (auto simp: lower_def lower_char_idem)
    qed
  qed
  then have s1: "lower (tidy t) = tidy t" by (rule lower_fixed)
  have s2: "strip_line_comments (tidy t) = tidy t"
    using assms(1) by (simp add: o no_line_comment)
  have s3: "strip_block_comments (tidy t) = tidy t"
    using assms(2) by (simp add: o no_block_comment)
  have chars': "\<forall>c \<in> set (map snd (unmark M)). \<not> is_space c"
    using chars by simp
  have s4: "collapse_ws (tidy t) = tidy t"
    unfolding o_render by (rule collapse_render [OF chars'])
  have s5: "strip (tidy t) = tidy t"
    unfolding o_render by (rule strip_render [OF chars])
  have s6: "rstrip_char (CHR '';'') (tidy t) = tidy t"
    using assms(3) by (simp add: o no_trailing_semicolon)
  have "CHR 0x22 \<notin> set (tidy t)"
    using sub by auto
  then have s7: "replace_char (CHR 0x22) (CHR 0x27) (tidy t) = tidy t"
    by (rule replace_absent)
  have pre: "pre_steps (tidy t) = tidy t"
    by (simp add: pre_steps_def s1 s2 s3 s4 s5 s6 s7)
  have "normalize (tidy t) = (if tidy t = [] then [] else strip (tidy (tidy t)))"
    by (simp add: normalize_phases pre)
  also have "\<dots> = tidy t"
    by (simp add: tidy_idem s5)
  finally show ?thesis by (simp add: o)
qed

theorem normalize_idempotent_when_clean_witness:
  "\<not> has_line_comment (normalize ''SELECT  count(*) FROM Singer WHERE age>=20 ;'') \<and>
   \<not> has_block_comment (normalize ''SELECT  count(*) FROM Singer WHERE age>=20 ;'') \<and>
   \<not> ends_with_semicolon (normalize ''SELECT  count(*) FROM Singer WHERE age>=20 ;'') \<and>
   normalize (normalize ''SELECT  count(*) FROM Singer WHERE age>=20 ;'') =
     normalize ''SELECT  count(*) FROM Singer WHERE age>=20 ;''"
proof -
  have n: "normalize ''SELECT  count(*) FROM Singer WHERE age>=20 ;'' =
      ''select count (*) from singer where age >= 20''"
    by code_simp
  have h: "\<not> has_line_comment (normalize ''SELECT  count(*) FROM Singer WHERE age>=20 ;'')"
    "\<not> has_block_comment (normalize ''SELECT  count(*) FROM Singer WHERE age>=20 ;'')"
    "\<not> ends_with_semicolon (normalize ''SELECT  count(*) FROM Singer WHERE age>=20 ;'')"
    unfolding n by code_simp+
  show ?thesis
    using h normalize_idempotent_when_clean [OF h] by simp
qed

text \<open>
  C1 as stated says that \<open>normalize\<close> is idempotent on every string. It is not: only the
  semicolons at the very end are removed, so \<open>SELECT 1; ;\<close> keeps one that the second
  pass removes; and removing an empty block comment can join two dashes into \<open>--\<close>, or a
  slash and a star into the opener of a comment, which the second pass then removes.
\<close>

theorem normalize_not_idempotent:
  "normalize (normalize ''SELECT 1; ;'') \<noteq> normalize ''SELECT 1; ;'' \<and>
   normalize (normalize ''SELECT 1 -/**/- 2'') \<noteq> normalize ''SELECT 1 -/**/- 2'' \<and>
   normalize (normalize ''SELECT 1 //**/* x */'') \<noteq> normalize ''SELECT 1 //**/* x */''"
proof -
  have "normalize ''SELECT 1; ;'' = ''select 1;''"
    and "normalize ''select 1;'' = ''select 1''"
    and "normalize ''SELECT 1 -/**/- 2'' = ''select 1 -- 2''"
    and "normalize ''select 1 -- 2'' = ''select 1''"
    and "normalize ''SELECT 1 //**/* x */'' = ''select 1 /* x */''"
    and "normalize ''select 1 /* x */'' = ''select 1''"
    by code_simp+
  then show ?thesis by simp
qed


subsection \<open>Execution evaluator\<close>

lemma try_body_closed_on_success: "try_body run = (Inr rows, conn) \<Longrightarrow> conn = ConnClosed"
  by (auto simp: try_body_def split: option.splits sum.splits)

lemma try_body_open_on_error:
  "connect_exc run = None \<Longrightarrow> try_body run = (Inl e, conn) \<Longrightarrow> conn = ConnOpen"
  by (auto simp: try_body_def split: option.splits sum.splits)

text \<open>
  C2. Every call of \<open>execute_sql\<close> that opens a connection closes it on every exit path,
  also when executing the statement raises. The code closes the connection only after
  \<open>fetchall\<close> has returned: when \<open>cursor.execute\<close> raises, the handler returns the failure
  and the connection is left open. The theorem runs the code on such a statement.
\<close>

theorem execute_sql_leaves_connection_open:
  "execute_sql demo_sqlite () ''dbs'' ''SELECT * FROM missing'' ''concert'' 30 =
     (Inr ((False, None, Some ''SQL Error: no such table: missing''), ConnOpen), ())"
  by (simp add: execute_sql_def get_database_path_def try_body_def demo_sqlite_def)

lemma execute_sql_returns:
  assumes "get_database_path env w dir db = Inr found"
  shows "\<exists>outcome conn w'. execute_sql env w dir sql db timeout = (Inr (outcome, conn), w')"
proof (cases found)
  case None
  then show ?thesis using assms by (auto simp: execute_sql_def)
next
  case (Some db_path)
  obtain run w' where r: "sqlite env w db_path sql timeout = (run, w')"
    by (cases "sqlite env w db_path sql timeout")
  obtain out conn where t: "try_body run = (out, conn)"
    by (cases "try_body run")
  show ?thesis
  proof (cases out)
    case (Inl e)
    then show ?thesis using assms Some r t
      by (cases e) (auto simp: execute_sql_def)
  next
    case (Inr rows)
    then show ?thesis using assms Some r t
      by (auto simp: execute_sql_def)
  qed
qed

lemma execute_sql_raises:
  "execute_sql env w dir sql db timeout = (Inl e, w') \<longleftrightarrow>
     get_database_path env w dir db = Inl e \<and> w' = w"
proof (cases "get_database_path env w dir db")
  case (Inl e')
  then show ?thesis by (auto simp: execute_sql_def)
next
  case (Inr found)
  from execute_sql_returns [OF this] show ?thesis using Inr by (metis Inl_Inr_False fst_conv)
qed

lemma get_database_path_returns:
  assumes "\<And>w p. \<exists>found. path_exists env w p = Inr found"
  shows "\<exists>found. get_database_path env w dir db = Inr found"
proof -
  obtain x where x: "path_exists env w [dir, db, db @ ''.sqlite''] = Inr x"
    using assms by blast
  obtain y where y: "path_exists env w [dir, db, ''database.sqlite''] = Inr y"
    using assms by blast
  show ?thesis using x y by (cases x; cases y) (simp_all add: get_database_path_def)
qed

lemma evaluate_contract:
  assumes "execute_sql env w dir gold db 30 = (Inr ((gs, gr, ge), gc), w1)"
    and "execute_sql env w1 dir pred db 30 = (Inr ((ps, pr, pe), pc), w2)"
  shows "(\<not> gs \<longrightarrow>
            evaluate env w dir gold pred db =
              (Inr (False, None, ''Gold query failed: '' @ fmt_opt ge), w1)) \<and>
         (gs \<and> \<not> ps \<longrightarrow>
            evaluate env w dir gold pred db =
              (Inr (True, Some False, ''Predicted query failed: '' @ fmt_opt pe), w2)) \<and>
         (gs \<and> ps \<longrightarrow>
            (\<exists>message. evaluate env w dir gold pred db =
              (Inr (True, Some (normalize_results gr = normalize_results pr), message), w2)))"
  using assms by (simp add: evaluate_def results_match_def)

lemma evaluate_contract_demo:
  "evaluate demo_sqlite () ''dbs'' ''SELECT * FROM missing'' ''SELECT 1'' ''concert'' =
     (Inr (False, None, ''Gold query failed: SQL Error: no such table: missing''), ()) \<and>
   evaluate demo_sqlite () ''dbs'' ''SELECT 1'' ''SELECT * FROM missing'' ''concert'' =
     (Inr (True, Some False,
           ''Predicted query failed: SQL Error: no such table: missing''), ()) \<and>
   (\<exists>message. evaluate demo_sqlite () ''dbs'' ''SELECT 1'' ''select 1'' ''concert'' =
     (Inr (True, Some True, message), ()))"
proof -
  have bad: "execute_sql demo_sqlite () ''dbs'' ''SELECT * FROM missing'' ''concert'' 30 =
      (Inr ((False, None, Some ''SQL Error: no such table: missing''), ConnOpen), ())"
    by (simp add: execute_sql_def get_database_path_def try_body_def demo_sqlite_def)
  have good: "execute_sql demo_sqlite () ''dbs'' ''SELECT 1'' ''concert'' 30 =
      (Inr ((True, Some [[CText ''SELECT 1'']], None), ConnClosed), ())"
    by (simp add: execute_sql_def get_database_path_def try_body_def demo_sqlite_def)
  have good': "execute_sql demo_sqlite () ''dbs'' ''select 1'' ''concert'' 30 =
      (Inr ((True, Some [[CText ''select 1'']], None), ConnClosed), ())"
    by (simp add: execute_sql_def get_database_path_def try_body_def demo_sqlite_def)
  have same: "normalize_results (Some [[CText ''SELECT 1'']]) =
      normalize_results (Some [[CText ''select 1'']])"
    by code_simp
  show ?thesis
    using evaluate_contract [OF bad good] evaluate_contract [OF good bad]
      evaluate_contract [OF good good'] same
    by (simp add: fmt_opt_def)
qed

lemma evaluate_returns:
  assumes "\<And>w p. \<exists>found. path_exists env w p = Inr found"
  shows "\<exists>outcome w'. evaluate env w dir gold pred db = (Inr outcome, w')"
proof -
  obtain f1 where "get_database_path env w dir db = Inr f1"
    using get_database_path_returns [OF assms] by blast
  from execute_sql_returns [OF this]
  obtain gs gr ge gc w1 where g: "execute_sql env w dir gold db 30 = (Inr ((gs, gr, ge), gc), w1)"
    by (metis prod_cases3)
  obtain f2 where "get_database_path env w1 dir db = Inr f2"
    using get_database_path_returns [OF assms] by blast
  from execute_sql_returns [OF this]
  obtain ps pr pe pc w2 where p: "execute_sql env w1 dir pred db 30 = (Inr ((ps, pr, pe), pc), w2)"
    by (metis prod_cases3)
  from evaluate_contract [OF g p] show ?thesis
    by (cases gs; cases ps) auto
qed

lemma evaluate_raises:
  assumes "path_exists env w [dir, db, db @ ''.sqlite''] = Inl e"
  shows "evaluate env w dir gold pred db = (Inl e, w)"
  using assms by (simp add: evaluate_def execute_sql_def get_database_path_def)

text \<open>
  C3. The three-way contract of \<open>evaluate\<close>: when the gold query fails, the outcome is
  \<open>(False, None, message)\<close>; when the gold query succeeds and the predicted one fails, it is
  \<open>(True, False, message)\<close>; when both succeed, it is \<open>(True, m, message)\<close> with \<open>m\<close> the
  equality of the two canonical result strings; and no exception leaves \<open>evaluate\<close>. The
  three outcomes are the ones of the code whenever both calls of \<open>execute_sql\<close> return
  (\<open>evaluate_contract\<close>), and every raise of the engine is caught by a handler of
  \<open>execute_sql\<close> (\<open>execute_sql_returns\<close>). But \<open>execute_sql\<close> calls \<open>get_database_path\<close>
  before its \<open>try\<close>, and \<open>Path.exists()\<close> raises the \<open>OSError\<close> of \<open>stat\<close> on a name the file
  system refuses: with a \<open>db_id\<close> of 300 characters the exception leaves \<open>execute_sql\<close> and
  \<open>evaluate\<close> (\<open>evaluate_raises\<close>). The theorem runs the code on that input.
\<close>

theorem evaluate_raises_on_long_db_id:
  "evaluate name_limit_sqlite () ''dbs'' ''SELECT 1'' ''SELECT 1'' (replicate 300 (CHR ''a'')) =
     (Inl (OtherError (''[Errno 36] File name too long: '' @ [CHR 0x27] @ ''dbs/'' @
                       replicate 300 (CHR ''a'') @ ''/'' @
                       replicate 300 (CHR ''a'') @ ''.sqlite'' @ [CHR 0x27])), ())"
  by (simp add: evaluate_def execute_sql_def get_database_path_def name_limit_sqlite_def)

text \<open>
  C8. \<open>normalize_results\<close> gives the same string for a list of rows and for every
  permutation of it, so \<open>results_match\<close> does not depend on the order of the rows. The
  witness is the scenario of the specification: gold rows \<open>[("a",), ("b",)]\<close> and predicted
  rows \<open>[("b",), ("a",)]\<close> match.
\<close>

theorem normalize_results_row_order:
  assumes "mset rows1 = mset rows2"
  shows "normalize_results (Some rows1) = normalize_results (Some rows2) \<and>
         results_match (Some rows1) (Some rows2)"
proof -
  have "mset (map normalize_row rows1) = mset (map normalize_row rows2)"
    using assms by (metis mset_map)
  then have "sort (map normalize_row rows1) = sort (map normalize_row rows2)"
    by (metis properties_for_sort sorted_sort mset_sort)
  then show ?thesis
    by (simp add: normalize_results_def results_match_def)
qed

theorem normalize_results_row_order_witness:
  "mset [[CText ''a''], [CText ''b'']] = mset [[CText ''b''], [CText ''a'']] \<and>
   results_match (Some [[CText ''a''], [CText ''b'']]) (Some [[CText ''b''], [CText ''a'']])"
proof -
  have perm: "mset [[CText ''a''], [CText ''b'']] = mset [[CText ''b''], [CText ''a'']]"
    by (simp add: add_mset_commute)
  show ?thesis
    using perm normalize_results_row_order [OF perm] by simp
qed

text \<open>
  C10. \<open>normalize_results\<close> maps the absent row set to the empty string and the empty list
  of rows to the two-character string \<open>[]\<close>, so an absent result set does not match an empty
  one.
\<close>

theorem normalize_results_absent_vs_empty:
  "normalize_results None = [] \<and> normalize_results (Some []) = ''[]'' \<and>
   \<not> results_match None (Some [])"
  by (simp add: normalize_results_def results_match_def str_list_def)

subsection \<open>Report\<close>

lemma count_where_length: "count_where p xs = int (length (filter p xs))"
  by (induction xs) (auto simp: count_where_def)

text \<open>
  C4. \<open>execution_accuracy\<close> is \<open>execution_match_count\<close> divided by the number of results
  whose \<open>execution_match\<close> is set (not by \<open>total_samples\<close>), and 0 when no result has it set.
  A report of 10 samples, 4 of them with \<open>execution_match\<close> set and 3 of them matches
  (counted by \<open>execution_match_count\<close>), has \<open>execution_accuracy\<close> 3/4.
\<close>

theorem execution_accuracy_denominator:
  "execution_accuracy rep =
     (if length (filter (\<lambda>r. execution_match r \<noteq> None) (results rep)) = 0 then 0
      else of_int (execution_match_count rep) /
           of_nat (length (filter (\<lambda>r. execution_match r \<noteq> None) (results rep)))) \<and>
   (total_samples rep = 10 \<and> length (results rep) = 10 \<and>
    length (filter (\<lambda>r. execution_match r \<noteq> None) (results rep)) = 4 \<and>
    length (filter (\<lambda>r. execution_match r = Some True) (results rep)) = 3 \<and>
    execution_match_count rep = 3
    \<longrightarrow> execution_accuracy rep = 3 / 4)"
  by (simp add: execution_accuracy_def count_where_length Let_def)

theorem execution_accuracy_denominator_witness:
  "total_samples demo_report = 10 \<and> length (results demo_report) = 10 \<and>
   length (filter (\<lambda>r. execution_match r \<noteq> None) (results demo_report)) = 4 \<and>
   length (filter (\<lambda>r. execution_match r = Some True) (results demo_report)) = 3 \<and>
   execution_match_count demo_report = 3 \<and>
   execution_accuracy demo_report = 3 / 4"
proof -
  have facts: "total_samples demo_report = 10 \<and> length (results demo_report) = 10 \<and>
      length (filter (\<lambda>r. execution_match r \<noteq> None) (results demo_report)) = 4 \<and>
      length (filter (\<lambda>r. execution_match r = Some True) (results demo_report)) = 3 \<and>
      execution_match_count demo_report = 3"
    by code_simp
  show ?thesis
    using facts execution_accuracy_denominator [of demo_report] by simp
qed

subsection \<open>Orchestrator\<close>


lemma bump_False [simp]: "bump False = 0"
  by (simp add: bump_def)

lemma report_delta_trans:
  "report_delta a b e1 x1 j1 v1 c1 \<Longrightarrow> report_delta b c e2 x2 j2 v2 c2 \<Longrightarrow>
   report_delta a c (e1 + e2) (x1 + x2) (j1 + j2) (v1 + v2) (c1 + c2)"
  by (simp add: report_delta_def)

lemma llm_judge_raises:
  "evaluate_llm_judge env r exact st = Inl (e, st') \<Longrightarrow> report st' = report st"
  by (auto simp: evaluate_llm_judge_def Let_def split: if_splits prod.splits sum.splits)

lemma llm_judge_returns:
  assumes "evaluate_llm_judge env r exact st = Inr (r', st')"
    and "llm_judge_match r = None"
  shows "report_delta (report st) (report st') 0 0 (bump (llm_judge_match r' = Some True)) 0 0 \<and>
         same_sample r r' \<and> execution_match r' = execution_match r"
proof (cases exact)
  case True
  then show ?thesis using assms
    by (auto simp: evaluate_llm_judge_def Let_def bump_def report_delta_def same_sample_def)
next
  case False
  show ?thesis
  proof (cases "is_valid_sql r")
    case True
    obtain answer w' where j: "judge_sql_equivalence env (world st) (question r) (gold_sql r)
        (predicted_sql r) = (answer, w')"
      by (cases "judge_sql_equivalence env (world st) (question r) (gold_sql r) (predicted_sql r)")
    then show ?thesis using assms False True
      by (cases answer)
        (auto simp: evaluate_llm_judge_def Let_def bump_def report_delta_def same_sample_def)
  next
    case False
    then show ?thesis using assms \<open>\<not> exact\<close>
      by (auto simp: evaluate_llm_judge_def Let_def bump_def report_delta_def same_sample_def)
  qed
qed

lemma execution_step_returns:
  assumes "evaluate_execution_step env dir r st = Inr (r', st')"
  shows "report_delta (report st) (report st') 0 (bump (execution_match r' = Some True)) 0 0 0 \<and>
         same_sample r r' \<and> llm_judge_match r' = llm_judge_match r \<and>
         judge_calls st' = judge_calls st"
  using assms
  by (auto simp: evaluate_execution_step_def Let_def bump_def report_delta_def same_sample_def
      split: prod.splits if_splits sum.splits)

lemma execution_step_raises:
  assumes "evaluate_execution_step env dir r st = Inl (e, st')"
  shows "report st' = report st \<and> judge_calls st' = judge_calls st"
  using assms
  by (auto simp: evaluate_execution_step_def Let_def split: prod.splits if_splits sum.splits)

lemma judge_stage_raises:
  "judge_stage env b r exact st = Inl (e, st') \<Longrightarrow> report st' = report st"
  by (auto simp: judge_stage_def dest: llm_judge_raises split: if_splits)

lemma judge_stage_returns:
  assumes "judge_stage env b r exact st = Inr (r', st')"
    and "llm_judge_match r = None"
  shows "report_delta (report st) (report st') 0 0 (bump (llm_judge_match r' = Some True)) 0 0 \<and>
         same_sample r r' \<and> execution_match r' = execution_match r"
proof (cases "use_llm_judge b")
  case True
  then show ?thesis using assms llm_judge_returns by (simp add: judge_stage_def)
next
  case False
  then show ?thesis using assms
    by (auto simp: judge_stage_def bump_def report_delta_def same_sample_def)
qed

lemma execution_stage_cases:
  "(\<exists>dir. databases_dir b = Some dir \<and> use_execution b \<and> dir \<noteq> [] \<and>
      execution_stage env b r st = evaluate_execution_step env dir r st) \<or>
   execution_stage env b r st = Inr (r, st)"
  by (auto simp: execution_stage_def split: option.splits)

lemma execution_stage_returns:
  assumes "execution_stage env b r st = Inr (r', st')"
    and "execution_match r = None"
  shows "report_delta (report st) (report st') 0 (bump (execution_match r' = Some True)) 0 0 0 \<and>
         same_sample r r' \<and> llm_judge_match r' = llm_judge_match r \<and>
         judge_calls st' = judge_calls st"
  using execution_stage_cases [of b env r st]
proof
  assume "\<exists>dir. databases_dir b = Some dir \<and> use_execution b \<and> dir \<noteq> [] \<and>
      execution_stage env b r st = evaluate_execution_step env dir r st"
  then obtain dir where "evaluate_execution_step env dir r st = Inr (r', st')"
    using assms by auto
  from execution_step_returns [OF this] show ?thesis by simp
next
  assume "execution_stage env b r st = Inr (r, st)"
  then show ?thesis using assms
    by (auto simp: bump_def report_delta_def same_sample_def)
qed

lemma execution_stage_raises:
  assumes "execution_stage env b r st = Inl (e, st')"
  shows "report st' = report st \<and> judge_calls st' = judge_calls st"
  using execution_stage_cases [of b env r st]
proof
  assume "\<exists>dir. databases_dir b = Some dir \<and> use_execution b \<and> dir \<noteq> [] \<and>
      execution_stage env b r st = evaluate_execution_step env dir r st"
  then obtain dir where "evaluate_execution_step env dir r st = Inl (e, st')"
    using assms by auto
  from execution_step_raises [OF this] show ?thesis .
next
  assume "execution_stage env b r st = Inr (r, st)"
  then show ?thesis using assms by simp
qed

lemma execution_stage_never_raises:
  assumes "\<And>w p. \<exists>found. path_exists (sql_env env) w p = Inr found"
  shows "execution_stage env b r st \<noteq> Inl raised"
  using execution_stage_cases [of b env r st]
proof
  assume "\<exists>dir. databases_dir b = Some dir \<and> use_execution b \<and> dir \<noteq> [] \<and>
      execution_stage env b r st = evaluate_execution_step env dir r st"
  then obtain dir where d: "execution_stage env b r st = evaluate_execution_step env dir r st"
    by auto
  obtain outcome w' where "evaluate (sql_env env) (world st) dir (gold_sql r) (predicted_sql r)
      (db_id r) = (Inr outcome, w')"
    using evaluate_returns [OF assms] by blast
  then show ?thesis unfolding d
    by (cases outcome)
      (simp add: evaluate_execution_step_def evaluate_execution_def Let_def split: if_splits)
next
  assume "execution_stage env b r st = Inr (r, st)"
  then show ?thesis by simp
qed

lemma update_counters_effect:
  "report_delta rep (update_counters exact is_valid rep) (bump exact) 0 0 (bump is_valid) 0"
  by (simp add: update_counters_def report_delta_def bump_def Let_def)

lemma try_sample_raises:
  assumes "try_sample env b q db gold schema t0 st = Inl (e, st')"
  shows "report_delta (report st) (report st') 0 0
           (llm_judge_match_count (report st') - llm_judge_match_count (report st)) 0 0 \<and>
         ((\<forall>r s raised. execution_stage env b r s \<noteq> Inl raised) \<longrightarrow> report st' = report st)"
proof -
  obtain out w1 where p: "pipeline_func env (world st) q schema = (out, w1)"
    by (cases "pipeline_func env (world st) q schema")
  show ?thesis
  proof (cases out)
    case (Inl a)
    then show ?thesis using assms p by (auto simp: try_sample_def report_delta_def)
  next
    case (Inr predicted)
    define exact where "exact = evaluate_exact_match gold predicted"
    define is_valid where "is_valid = valid_sql env predicted"
    define r0 where "r0 = success_result q db gold predicted exact is_valid
        ((clock env w1 - t0) * 1000)"
    define st1 where "st1 = st\<lparr>world := w1\<rparr>"
    have body: "try_sample env b q db gold schema t0 st =
        (case judge_stage env b r0 exact st1 of
           Inl raised \<Rightarrow> Inl raised
         | Inr (result, st2) \<Rightarrow>
             (case execution_stage env b result st2 of
                Inl raised \<Rightarrow> Inl raised
              | Inr (result, st3) \<Rightarrow>
                  Inr (result, st3\<lparr>report := update_counters exact is_valid (report st3)\<rparr>)))"
      unfolding try_sample_def r0_def exact_def is_valid_def st1_def
      using p Inr by (simp add: Let_def)
    have st1: "report st1 = report st" by (simp add: st1_def)
    have r0: "llm_judge_match r0 = None"
      by (simp add: r0_def success_result_def)
    show ?thesis
    proof (cases "judge_stage env b r0 exact st1")
      case (Inl raised)
      then have "judge_stage env b r0 exact st1 = Inl (e, st')"
        using assms body by simp
      from judge_stage_raises [OF this] show ?thesis
        by (simp add: st1 report_delta_def)
    next
      case (Inr res)
      obtain r1 st2 where res: "res = (r1, st2)" by (cases res)
      have j: "judge_stage env b r0 exact st1 = Inr (r1, st2)"
        using Inr res by simp
      have x: "execution_stage env b r1 st2 = Inl (e, st')"
        using assms body j by (cases "execution_stage env b r1 st2") auto
      have "report st' = report st2"
        using execution_stage_raises [OF x] by simp
      moreover have "report_delta (report st) (report st2) 0 0
          (bump (llm_judge_match r1 = Some True)) 0 0"
        using judge_stage_returns [OF j r0] by (simp add: st1)
      ultimately show ?thesis using x
        by (auto simp: report_delta_def)
    qed
  qed
qed

lemma try_sample_returns:
  assumes "try_sample env b q db gold schema t0 st = Inr (r, st')"
  shows "counted (report st) r (report st') \<and> error r = None \<and> question r = q"
proof -
  obtain out w1 where p: "pipeline_func env (world st) q schema = (out, w1)"
    by (cases "pipeline_func env (world st) q schema")
  from assms p obtain predicted where out: "out = Inr predicted"
    by (cases out) (auto simp: try_sample_def)
  define exact where "exact = evaluate_exact_match gold predicted"
  define is_valid where "is_valid = valid_sql env predicted"
  define r0 where "r0 = success_result q db gold predicted exact is_valid
      ((clock env w1 - t0) * 1000)"
  define st1 where "st1 = st\<lparr>world := w1\<rparr>"
  have body: "try_sample env b q db gold schema t0 st =
      (case judge_stage env b r0 exact st1 of
         Inl raised \<Rightarrow> Inl raised
       | Inr (result, st2) \<Rightarrow>
           (case execution_stage env b result st2 of
              Inl raised \<Rightarrow> Inl raised
            | Inr (result, st3) \<Rightarrow>
                Inr (result, st3\<lparr>report := update_counters exact is_valid (report st3)\<rparr>)))"
    unfolding try_sample_def r0_def exact_def is_valid_def st1_def
    using p out by (simp add: Let_def)
  obtain r1 st2 where j: "judge_stage env b r0 exact st1 = Inr (r1, st2)"
    using assms body by (cases "judge_stage env b r0 exact st1") auto
  obtain r2 st3 where x: "execution_stage env b r1 st2 = Inr (r2, st3)"
    using assms body j by (cases "execution_stage env b r1 st2") auto
  have fin: "r = r2" "report st' = update_counters exact is_valid (report st3)"
    using assms body j x by auto
  have r0: "llm_judge_match r0 = None" "execution_match r0 = None" "exact_match r0 = exact"
    "is_valid_sql r0 = is_valid" "error r0 = None" "question r0 = q"
    by (simp_all add: r0_def success_result_def)
  have st1: "report st1 = report st" by (simp add: st1_def)
  note j_eff = judge_stage_returns [OF j r0(1)]
  then have r1: "execution_match r1 = None" using r0 by simp
  note x_eff = execution_stage_returns [OF x r1]
  have r2: "exact_match r2 = exact" "is_valid_sql r2 = is_valid" "error r2 = None"
    "llm_judge_match r2 = llm_judge_match r1" "question r2 = q"
    using j_eff x_eff r0 by (simp_all add: same_sample_def)
  have d1: "report_delta (report st1) (report st2) 0 0
      (bump (llm_judge_match r1 = Some True)) 0 0"
    using j_eff by simp
  have d2: "report_delta (report st2) (report st3) 0
      (bump (execution_match r2 = Some True)) 0 0 0"
    using x_eff by simp
  have d3: "report_delta (report st3) (report st') (bump exact) 0 0 (bump is_valid) 0"
    unfolding fin(2) by (rule update_counters_effect)
  from report_delta_trans [OF report_delta_trans [OF d1 d2] d3] show ?thesis
    using r2 by (simp add: counted_def fin(1) st1 bump_def)
qed

lemma counted_is_outcome: "counted rep r rep' \<Longrightarrow> counted_outcome rep r rep'"
  by (simp add: counted_def counted_outcome_def report_delta_def)

lemma evaluate_sample_outcome:
  assumes "evaluate_sample env b smp st = (r, st')"
  shows "counted_outcome (report st) r (report st')"
proof (cases "try_sample env b (s_question smp) (s_db_id smp) (s_query smp)
    (get_schema b (s_db_id smp)) (clock env (world st)) st")
  case (Inl raised)
  obtain e st1 where raised: "raised = (e, st1)" by (cases raised)
  have "report_delta (report st) (report st1) 0 0
      (llm_judge_match_count (report st1) - llm_judge_match_count (report st)) 0 0"
    using Inl raised try_sample_raises by metis
  then show ?thesis using assms Inl raised
    by (auto simp: evaluate_sample_def Let_def counted_outcome_def report_delta_def bump_def
        failure_result_def)
next
  case (Inr res)
  then have "res = (r, st')" using assms by (simp add: evaluate_sample_def Let_def)
  then show ?thesis using Inr try_sample_returns counted_is_outcome by metis
qed

lemma evaluate_sample_counted:
  assumes "evaluate_sample env b smp st = (r, st')"
    and "\<And>w p. \<exists>found. path_exists (sql_env env) w p = Inr found"
  shows "counted (report st) r (report st')"
proof (cases "try_sample env b (s_question smp) (s_db_id smp) (s_query smp)
    (get_schema b (s_db_id smp)) (clock env (world st)) st")
  case (Inl raised)
  obtain e st1 where raised: "raised = (e, st1)" by (cases raised)
  have "\<forall>r s raised. execution_stage env b r s \<noteq> Inl raised"
    using execution_stage_never_raises [OF assms(2)] by blast
  then have "report st1 = report st"
    using Inl raised try_sample_raises by metis
  then show ?thesis using assms(1) Inl raised
    by (auto simp: evaluate_sample_def Let_def counted_def report_delta_def bump_def
        failure_result_def)
next
  case (Inr res)
  then have "res = (r, st')" using assms by (simp add: evaluate_sample_def Let_def)
  then show ?thesis using Inr try_sample_returns by metis
qed

lemma count_where_snoc: "count_where p (xs @ [x]) = count_where p xs + bump (p x)"
  by (simp add: count_where_def bump_def)


lemma loop_step_outcome_inv:
  assumes "outcome_inv (report st)"
  shows "outcome_inv (report (loop_step env b st smp))"
proof -
  obtain r st' where e: "evaluate_sample env b smp st = (r, st')"
    by (cases "evaluate_sample env b smp st")
  from evaluate_sample_outcome [OF e] assms show ?thesis
    using e
    by (simp add: loop_step_def Let_def counted_outcome_def report_delta_def outcome_inv_def
        count_where_snoc)
qed

lemma run_loop_outcome_inv:
  "outcome_inv (report st) \<Longrightarrow> outcome_inv (report (run_loop env b samples st))"
  unfolding run_loop_def
  by (induction samples arbitrary: st) (simp_all add: loop_step_outcome_inv)

lemma loop_step_inv:
  assumes "report_inv (report st)"
    and "\<And>w p. \<exists>found. path_exists (sql_env env) w p = Inr found"
  shows "report_inv (report (loop_step env b st smp))"
proof -
  obtain r st' where e: "evaluate_sample env b smp st = (r, st')"
    by (cases "evaluate_sample env b smp st")
  from evaluate_sample_counted [OF e assms(2)] assms(1) show ?thesis
    using e
    by (simp add: loop_step_def Let_def counted_def report_delta_def report_inv_def
        count_where_snoc)
qed

lemma run_loop_inv:
  assumes "\<And>w p. \<exists>found. path_exists (sql_env env) w p = Inr found"
  shows "report_inv (report st) \<Longrightarrow> report_inv (report (run_loop env b samples st))"
  unfolding run_loop_def
  by (induction samples arbitrary: st) (simp_all add: loop_step_inv [OF _ assms])


lemma new_report_inv: "report_inv new_report"
  by (simp add: report_inv_def new_report_def count_where_def)

lemma report_outcome_counters:
  "outcome_inv (report (run_loop env b (take k samples) (start_state w)))"
  by (rule run_loop_outcome_inv)
    (simp add: start_state_def outcome_inv_def new_report_def count_where_def)

lemma report_inv_when_exists_returns:
  assumes "\<And>w p. \<exists>found. path_exists (sql_env env) w p = Inr found"
  shows "report_inv (report (run_loop env b (take k samples) (start_state w)))"
  by (rule run_loop_inv [OF assms]) (simp add: start_state_def new_report_inv)

text \<open>
  C5. After each iteration of the loop of \<open>run\<close> the report has \<open>total_samples\<close> equal to
  the number of results, and each of \<open>exact_match_count\<close>, \<open>execution_match_count\<close>,
  \<open>llm_judge_match_count\<close>, \<open>valid_sql_count\<close> and \<open>error_count\<close> equal to the number of
  appended results that satisfy its predicate (\<open>report_inv\<close>). The code keeps
  \<open>total_samples\<close> and four of the counters in step with the results on every run
  (\<open>report_outcome_counters\<close>), and all five when no \<open>Path.exists()\<close> raises
  (\<open>report_inv_when_exists_returns\<close>). It does not keep \<open>llm_judge_match_count\<close>: the \<open>try\<close>
  of \<open>_evaluate_sample\<close> runs the judge step, which adds to the counter, and then the
  execution step; when that one raises, the handler records a result with
  \<open>llm_judge_match = None\<close> and the counter keeps what the judge step added. The theorem
  runs the loop on one sample whose \<open>db_id\<close> has 300 characters and whose prediction is the
  gold query: the counter is 1 and no result has \<open>llm_judge_match = True\<close>.
\<close>

theorem judge_counter_survives_failure:
  "llm_judge_match_count
     (report (run_loop name_limit_collab exec_bench [long_name_sample] (start_state ()))) = 1 \<and>
   map llm_judge_match
     (results (report (run_loop name_limit_collab exec_bench [long_name_sample]
        (start_state ())))) = [None] \<and>
   map error
     (results (report (run_loop name_limit_collab exec_bench [long_name_sample]
        (start_state ())))) =
     [Some (''[Errno 36] File name too long: '' @ [CHR 0x27] @ ''dbs/'' @
            replicate 300 (CHR ''a'') @ ''/'' @
            replicate 300 (CHR ''a'') @ ''.sqlite'' @ [CHR 0x27])] \<and>
   \<not> report_inv
     (report (run_loop name_limit_collab exec_bench [long_name_sample] (start_state ())))"
  by code_simp












subsection \<open>Schema text\<close>


lemma group_columns_lookup:
  "foldl (group_column types) m entries k =
     (let new = map (make_column types) (filter (\<lambda>(idx, table_idx, name). table_idx = k) entries)
      in if k = - 1 \<or> new = [] then m k
         else Some ((case m k of None \<Rightarrow> [] | Some cols \<Rightarrow> cols) @ new))"
proof (induction entries arbitrary: m)
  case Nil
  show ?case by simp
next
  case (Cons entry entries)
  obtain idx table_idx name where entry: "entry = (idx, table_idx, name)"
    by (cases entry)
  show ?case
    unfolding foldl_Cons Cons.IH
    by (auto simp: entry group_column_def make_column_def Let_def)
qed

lemma concat_if_singleton:
  "concat (map (\<lambda>x. if p x then [f x] else []) xs) = map f (filter p xs)"
  by (induction xs) simp_all

lemma col_def_make_column:
  "col_def (case primary_keys info of None \<Rightarrow> [] | Some ks \<Rightarrow> ks)
     (make_column (column_types info) entry) = column_text info entry"
  by (cases entry) (simp add: col_def_def make_column_def column_text_def)

text \<open>
  C9 as stated says that a statement is emitted for each table. The code skips a table
  that owns no column (\<open>if not cols: continue\<close>): for \<open>demo_tables\<close> it emits the statement
  of \<open>singer\<close> only.
\<close>

theorem schema_text_every_table_counterexample:
  "build_schema_string demo_tables \<noteq> schema_text_every_table demo_tables"
  by code_simp

text \<open>
  C9, amended. The schema text is a function of the table metadata alone: columns are
  grouped by the index of the table that owns them, the sentinel entry (owner \<open>-1\<close>) belongs
  to no table, each table that owns at least one column gives one statement
  \<open>CREATE TABLE <name> (col type[ PRIMARY KEY][, ...]);\<close> with the type in upper case and
  \<open>TEXT\<close> for a column whose position is outside the type list, and the statements are
  joined by a blank line.
\<close>

theorem build_schema_string_spec:
  "build_schema_string info = schema_text_spec info"
proof -
  define pks where "pks = (case primary_keys info of None \<Rightarrow> [] | Some ks \<Rightarrow> ks)"
  define by_table where "by_table = foldl (group_column (column_types info)) Map.empty
      (enumerate_list (column_names_original info))"
  have lookup: "by_table (int i) =
      (if columns_of info i = [] then None
       else Some (map (make_column (column_types info)) (columns_of info i)))" for i
    unfolding by_table_def group_columns_lookup
    by (simp add: columns_of_def Let_def)
  have part: "(\<lambda>(i, table_name).
        case by_table (int i) of
          None \<Rightarrow> []
        | Some cols \<Rightarrow> if cols = [] then [] else [create_stmt pks table_name cols]) =
      (\<lambda>t. if columns_of info (fst t) \<noteq> [] then [table_statement info t] else [])"
  proof (rule ext)
    fix t :: "nat \<times> string"
    obtain i table_name where t: "t = (i, table_name)" by (cases t)
    show "(case t of (i, table_name) \<Rightarrow>
        case by_table (int i) of
          None \<Rightarrow> []
        | Some cols \<Rightarrow> if cols = [] then [] else [create_stmt pks table_name cols]) =
      (if columns_of info (fst t) \<noteq> [] then [table_statement info t] else [])"
      unfolding t lookup
      by (simp add: create_stmt_def table_statement_def pks_def col_def_make_column
          comp_def)
  qed
  have "build_schema_string info =
      join [CHR 0x0A, CHR 0x0A]
        (concat (map (\<lambda>t. if columns_of info (fst t) \<noteq> [] then [table_statement info t] else [])
           (enumerate_list (table_names_original info))))"
    unfolding build_schema_string_def Let_def part [unfolded by_table_def pks_def]
    by (rule refl)
  also have "\<dots> =
      join [CHR 0x0A, CHR 0x0A]
        (map (table_statement info)
           (filter (\<lambda>t. columns_of info (fst t) \<noteq> [])
              (enumerate_list (table_names_original info))))"
    by (simp only: concat_if_singleton)
  also have "\<dots> = schema_text_spec info"
    by (simp add: schema_text_spec_def case_prod_unfold)
  finally show ?thesis .
qed

end
